theory Spec2Isabelle
  imports Main "HOL-Library.Sublist"
begin

section \<open>Data model\<close>

text \<open>
  The script \<^verbatim>\<open>hibernate3to4changelogGen.py\<close> works on the attribute dictionaries of
  XML elements (\<^verbatim>\<open>child.attrib\<close>): Python dictionaries from attribute names to attribute
  values, compared with \<^verbatim>\<open>==\<close> by content. They are modelled as partial maps from
  strings to strings, whose HOL equality is exactly equality of content.
\<close>

type_synonym attrs = "string \<rightharpoonup> string"

text \<open>
  The two ways the transformation core can abort: subscripting a dictionary with a key it
  does not have (\<^verbatim>\<open>KeyError\<close>, carrying the key) and a failed \<^verbatim>\<open>assert\<close>.
\<close>

datatype error = KeyError string | AssertionError

text \<open>\<^verbatim>\<open>d[k]\<close>: the value stored under \<open>k\<close>, or \<^verbatim>\<open>KeyError(k)\<close>.\<close>

definition getitem :: "attrs \<Rightarrow> string \<Rightarrow> error + string" where
  "getitem d k = (case d k of None \<Rightarrow> Inl (KeyError k) | Some v \<Rightarrow> Inr v)"

text \<open>Sequencing of computations that may raise: the first error aborts the rest.\<close>

definition bind :: "error + 'a \<Rightarrow> ('a \<Rightarrow> error + 'b) \<Rightarrow> error + 'b" where
  "bind m f = (case m of Inl e \<Rightarrow> Inl e | Inr x \<Rightarrow> f x)"

section \<open>The transformation core\<close>

text \<open>
  \<^verbatim>\<open>def to_drop_constraint_version(dict):
    return {'constraintName': dict['constraintName'], 'tableName': dict['tableName']}\<close>
\<close>

definition to_drop_constraint_version :: "attrs \<Rightarrow> error + attrs" where
  "to_drop_constraint_version d =
     bind (getitem d ''constraintName'') (\<lambda>c.
     bind (getitem d ''tableName'') (\<lambda>t.
     Inr [''constraintName'' \<mapsto> c, ''tableName'' \<mapsto> t]))"

text \<open>
  \<^verbatim>\<open>def adds_to_add_drop_constraints(masterConstraints, newConstraints):
    assert masterConstraints['columnNames'] == newConstraints['columnNames']
    assert masterConstraints['tableName'] == newConstraints['tableName']
    return to_drop_constraint_version(masterConstraints), \
           {'columnNames': masterConstraints['columnNames'],
            'constraintName': newConstraints['constraintName'],
            'deferrable': "false", 'disabled': "false", 'initiallyDeferred': "false",
            'tableName': masterConstraints['tableName']}\<close>
\<close>

definition adds_to_add_drop_constraints :: "attrs \<Rightarrow> attrs \<Rightarrow> error + (attrs \<times> attrs)" where
  "adds_to_add_drop_constraints masterConstraints newConstraints =
     bind (getitem masterConstraints ''columnNames'') (\<lambda>mc.
     bind (getitem newConstraints ''columnNames'') (\<lambda>nc.
     if mc \<noteq> nc then Inl AssertionError else
     bind (getitem masterConstraints ''tableName'') (\<lambda>mt.
     bind (getitem newConstraints ''tableName'') (\<lambda>nt.
     if mt \<noteq> nt then Inl AssertionError else
     bind (to_drop_constraint_version masterConstraints) (\<lambda>drop.
     bind (getitem masterConstraints ''columnNames'') (\<lambda>cols.
     bind (getitem newConstraints ''constraintName'') (\<lambda>name.
     bind (getitem masterConstraints ''tableName'') (\<lambda>tbl.
     Inr (drop,
          [''columnNames'' \<mapsto> cols, ''constraintName'' \<mapsto> name,
           ''deferrable'' \<mapsto> ''false'', ''disabled'' \<mapsto> ''false'',
           ''initiallyDeferred'' \<mapsto> ''false'', ''tableName'' \<mapsto> tbl])))))))))"

text \<open>
  \<^verbatim>\<open>def remove_dropped_adds(additions, drops):
    return [addition for addition in additions
            if to_drop_constraint_version(addition) not in drops]\<close>

  The comprehension visits the additions in order; the first addition that lacks a key
  attribute aborts the whole call.
\<close>

fun remove_dropped_adds :: "attrs list \<Rightarrow> attrs list \<Rightarrow> error + attrs list" where
  "remove_dropped_adds [] drops = Inr []"
| "remove_dropped_adds (addition # additions) drops =
     bind (to_drop_constraint_version addition) (\<lambda>d.
     bind (remove_dropped_adds additions drops) (\<lambda>rest.
     Inr (if d \<notin> set drops then addition # rest else rest)))"

text \<open>
  The condition of the comprehension in \<^verbatim>\<open>merge_master_adds_and_new_adds\<close>, with
  Python's short-circuit \<^verbatim>\<open>and\<close>:
  \<^verbatim>\<open>master['tableName'] == new['tableName']
    and master['columnNames'] == new['columnNames']
    and master['constraintName'] != new['constraintName']\<close>
\<close>

definition merge_cond :: "attrs \<Rightarrow> attrs \<Rightarrow> error + bool" where
  "merge_cond master new =
     bind (getitem master ''tableName'') (\<lambda>mt.
     bind (getitem new ''tableName'') (\<lambda>nt.
     if mt \<noteq> nt then Inr False else
     bind (getitem master ''columnNames'') (\<lambda>mc.
     bind (getitem new ''columnNames'') (\<lambda>nc.
     if mc \<noteq> nc then Inr False else
     bind (getitem master ''constraintName'') (\<lambda>mn.
     bind (getitem new ''constraintName'') (\<lambda>nn.
     Inr (mn \<noteq> nn)))))))"

text \<open>The inner loop \<^verbatim>\<open>for new in new_list\<close> for one fixed master.\<close>

fun merge_row :: "attrs \<Rightarrow> attrs list \<Rightarrow> error + (attrs \<times> attrs) list" where
  "merge_row master [] = Inr []"
| "merge_row master (new # new_list) =
     bind (merge_cond master new) (\<lambda>b.
     bind (merge_row master new_list) (\<lambda>rest.
     Inr (if b then (master, new) # rest else rest)))"

text \<open>
  \<^verbatim>\<open>def merge_master_adds_and_new_adds(master_list, new_list):
    return [(master, new)
            for master in master_list
            for new in new_list
            if master['tableName'] == new['tableName']
            and master['columnNames'] == new['columnNames']
            # no need to add a constraint change that already exists
            and master['constraintName'] != new['constraintName']]\<close>
\<close>

fun merge_master_adds_and_new_adds ::
    "attrs list \<Rightarrow> attrs list \<Rightarrow> error + (attrs \<times> attrs) list" where
  "merge_master_adds_and_new_adds [] new_list = Inr []"
| "merge_master_adds_and_new_adds (master # master_list) new_list =
     bind (merge_row master new_list) (\<lambda>row.
     bind (merge_master_adds_and_new_adds master_list new_list) (\<lambda>rest.
     Inr (row @ rest)))"

text \<open>
  The comprehension of the script's main part,
  \<^verbatim>\<open>[adds_to_add_drop_constraints(master, new) for (master, new) in all_adds]\<close>:
  the first pair whose rename aborts, aborts the whole comprehension.
\<close>

fun renames :: "(attrs \<times> attrs) list \<Rightarrow> error + (attrs \<times> attrs) list" where
  "renames [] = Inr []"
| "renames ((master, new) # all_adds) =
     bind (adds_to_add_drop_constraints master new) (\<lambda>r.
     bind (renames all_adds) (\<lambda>rest.
     Inr (r # rest)))"

text \<open>
  The diff pipeline of the script's main part, from the parsed records to the list of
  rename pairs:
  \<^verbatim>\<open>filtered = remove_dropped_adds(adds, drops)
  all_adds = merge_master_adds_and_new_adds(filtered, new_constraints)
  xml_diff = [adds_to_add_drop_constraints(master, new) for (master, new) in all_adds]\<close>
\<close>

definition xml_diff :: "attrs list \<Rightarrow> attrs list \<Rightarrow> attrs list \<Rightarrow> error + (attrs \<times> attrs) list" where
  "xml_diff adds drops new_constraints =
     bind (remove_dropped_adds adds drops) (\<lambda>filtered.
     bind (merge_master_adds_and_new_adds filtered new_constraints) (\<lambda>all_adds.
     renames all_adds))"

section \<open>The output document\<close>

text \<open>
  \<^verbatim>\<open>add_and_removes_to_changelog_xml\<close> builds the document with
  \<^verbatim>\<open>xml.etree.ElementTree\<close>: elements are objects, \<^verbatim>\<open>SubElement\<close> appends a new element
  to the children of a parent that may already hang in the tree, and the text of an element
  is assigned after its creation. The elements therefore live in a store: a list of nodes,
  the address of an element being its index, and the children of a node being addresses.
\<close>

record node =
  el_tag :: string
  el_attrib :: attrs
  el_text :: "string option"
  el_children :: "nat list"

type_synonym heap = "node list"

text \<open>
  \<^verbatim>\<open>ET.Element(tag, attrib)\<close> allocates a new element with a copy of the attributes, no text
  and no children.
\<close>

definition Element :: "string \<Rightarrow> attrs \<Rightarrow> heap \<Rightarrow> nat \<times> heap" where
  "Element t a h =
     (length h, h @ [\<lparr>el_tag = t, el_attrib = a, el_text = None, el_children = []\<rparr>])"

text \<open>
  \<^verbatim>\<open>ET.SubElement(parent, tag, attrib)\<close> allocates a new element and appends it to the children
  of \<open>parent\<close>. The parent is always a live element in the source; for an address outside
  the store the update below changes nothing.
\<close>

definition SubElement :: "nat \<Rightarrow> string \<Rightarrow> attrs \<Rightarrow> heap \<Rightarrow> nat \<times> heap" where
  "SubElement parent t a h =
     (case Element t a h of (element, h') \<Rightarrow>
        (element, h'[parent := (h' ! parent)
                      \<lparr>el_children := el_children (h' ! parent) @ [element]\<rparr>]))"

text \<open>\<^verbatim>\<open>element.text = s\<close>\<close>

definition set_text :: "nat \<Rightarrow> string \<Rightarrow> heap \<Rightarrow> heap" where
  "set_text element s h = h[element := (h ! element)\<lparr>el_text := Some s\<rparr>]"

text \<open>
  \<^verbatim>\<open>for prop in properties:
    ET.SubElement(top, 'property', prop)\<close>
\<close>

fun add_properties :: "nat \<Rightarrow> attrs list \<Rightarrow> heap \<Rightarrow> heap" where
  "add_properties top_el [] h = h"
| "add_properties top_el (prop # properties) h =
     add_properties top_el properties (snd (SubElement top_el ''property'' prop h))"

text \<open>
  \<^verbatim>\<open>for (drop, add) in add_and_removes:
    ET.SubElement(change_set, 'dropUniqueConstraint', drop)
    ET.SubElement(change_set, 'addUniqueConstraint', add)\<close>
\<close>

fun add_constraints :: "nat \<Rightarrow> (attrs \<times> attrs) list \<Rightarrow> heap \<Rightarrow> heap" where
  "add_constraints change_set [] h = h"
| "add_constraints change_set ((drop_c, add_c) # add_and_removes) h =
     add_constraints change_set add_and_removes
       (snd (SubElement change_set ''addUniqueConstraint'' add_c
         (snd (SubElement change_set ''dropUniqueConstraint'' drop_c h))))"

text \<open>The namespace attributes of the root element (the local \<^verbatim>\<open>ns\<close>).\<close>

definition ns :: attrs where
  "ns = [''xmlns'' \<mapsto> ''http://www.liquibase.org/xml/ns/dbchangelog'',
         ''xmlns:ext'' \<mapsto> ''http://www.liquibase.org/xml/ns/dbchangelog-ext'',
         ''xmlns:xsi'' \<mapsto> ''http://www.w3.org/2001/XMLSchema-instance'',
         ''xsi:schemaLocation'' \<mapsto> ''http://www.liquibase.org/xml/ns/dbchangelog-ext http://www.liquibase.org/xml/ns/dbchangelog/dbchangelog-ext.xsd http://www.liquibase.org/xml/ns/dbchangelog http://www.liquibase.org/xml/ns/dbchangelog/dbchangelog-3.4.xsd'']"

text \<open>The text of the \<^verbatim>\<open>comment\<close> element, a triple-quoted literal with its line breaks.\<close>

definition comment_text :: string where
  "comment_text =
     CHR 0x0A # ''            Constraint naming convention was changed between Hibernate 3 and 4.''
     @ CHR 0x0A # ''            This XML was generated using the `hibernate3to4changelogGen.py` file.''
     @ CHR 0x0A # ''        ''"

text \<open>
  \<^verbatim>\<open>def add_and_removes_to_changelog_xml(add_and_removes, properties, change_id):
    ns = {...}
    top = ET.Element('databaseChangeLog', ns)
    for prop in properties:
        ET.SubElement(top, 'property', prop)
    change_set = ET.SubElement(top, 'changeSet', {'author': getpass.getuser(), 'id': change_id})
    ET.SubElement(change_set, 'comment').text = """..."""
    for (drop, add) in add_and_removes:
        ET.SubElement(change_set, 'dropUniqueConstraint', drop)
        ET.SubElement(change_set, 'addUniqueConstraint', add)
    modify_sql = ET.SubElement(change_set, 'modifySql', {'dbms': 'postgresql'})
    ET.SubElement(modify_sql, 'replace', {'replace': "WITH", 'with': "WITHOUT"})
    return top\<close>

  The result of \<^verbatim>\<open>getpass.getuser()\<close> is the parameter \<open>user\<close>; the function takes the store
  and returns the address of the root with the new store.
\<close>

definition add_and_removes_to_changelog_xml ::
    "string \<Rightarrow> (attrs \<times> attrs) list \<Rightarrow> attrs list \<Rightarrow> string \<Rightarrow> heap \<Rightarrow> nat \<times> heap" where
  "add_and_removes_to_changelog_xml user add_and_removes properties change_id h0 =
     (let (top_el, h1) = Element ''databaseChangeLog'' ns h0;
          h2 = add_properties top_el properties h1;
          (change_set, h3) = SubElement top_el ''changeSet'' [''author'' \<mapsto> user, ''id'' \<mapsto> change_id] h2;
          (comment, h4) = SubElement change_set ''comment'' Map.empty h3;
          h5 = set_text comment comment_text h4;
          h6 = add_constraints change_set add_and_removes h5;
          (modify_sql, h7) = SubElement change_set ''modifySql'' [''dbms'' \<mapsto> ''postgresql''] h6;
          (replace_el, h8) = SubElement modify_sql ''replace''
                               [''replace'' \<mapsto> ''WITH'', ''with'' \<mapsto> ''WITHOUT''] h7
      in (top_el, h8))"

text \<open>
  The document that hangs at an address of the store, as a tree: tag, attributes, text and
  children in order. The fuel bounds the depth that is read; a tree deeper than the fuel,
  or a dangling address, gives \<open>None\<close>.
\<close>

datatype xml = Xml string attrs "string option" "xml list"

fun tree_of :: "nat \<Rightarrow> heap \<Rightarrow> nat \<Rightarrow> xml option" where
  "tree_of 0 h e = None"
| "tree_of (Suc fuel) h e =
     (if e < length h
      then map_option (Xml (el_tag (h ! e)) (el_attrib (h ! e)) (el_text (h ! e)))
             (those (map (tree_of fuel h) (el_children (h ! e))))
      else None)"

text \<open>A fresh element, a childless node read as a tree, and the nodes the pairs add.\<close>

abbreviation leaf :: "string \<Rightarrow> attrs \<Rightarrow> node" where
  "leaf t a \<equiv> \<lparr>el_tag = t, el_attrib = a, el_text = None, el_children = []\<rparr>"

abbreviation flat :: "node \<Rightarrow> xml" where
  "flat l \<equiv> Xml (el_tag l) (el_attrib l) (el_text l) []"

abbreviation constraint_nodes :: "(attrs \<times> attrs) list \<Rightarrow> node list" where
  "constraint_nodes add_and_removes \<equiv>
     concat (map (\<lambda>(d, a). [leaf ''dropUniqueConstraint'' d, leaf ''addUniqueConstraint'' a])
       add_and_removes)"

section \<open>Basic facts\<close>

lemma bind_Inr [simp]: "bind (Inr x) f = f x"
  by (simp add: bind_def)

lemma bind_Inl [simp]: "bind (Inl e) f = Inl e"
  by (simp add: bind_def)

lemma bind_eq_Inr: "bind m f = Inr y \<longleftrightarrow> (\<exists>x. m = Inr x \<and> f x = Inr y)"
  by (cases m) simp_all

lemma getitem_Some [simp]: "d k = Some v \<Longrightarrow> getitem d k = Inr v"
  by (simp add: getitem_def)

lemma getitem_None [simp]: "d k = None \<Longrightarrow> getitem d k = Inl (KeyError k)"
  by (simp add: getitem_def)

lemma getitem_eq_Inr: "getitem d k = Inr v \<longleftrightarrow> d k = Some v"
  by (simp add: getitem_def split: option.splits)

lemma to_drop_constraint_version_Some:
  "d ''constraintName'' = Some c \<Longrightarrow> d ''tableName'' = Some t \<Longrightarrow>
   to_drop_constraint_version d = Inr [''constraintName'' \<mapsto> c, ''tableName'' \<mapsto> t]"
  by (simp add: to_drop_constraint_version_def)

lemma to_drop_constraint_version_eq_Inr:
  "to_drop_constraint_version d = Inr p \<longleftrightarrow>
   (\<exists>c t. d ''constraintName'' = Some c \<and> d ''tableName'' = Some t \<and>
          p = [''constraintName'' \<mapsto> c, ''tableName'' \<mapsto> t])"
  by (auto simp: to_drop_constraint_version_def bind_eq_Inr getitem_eq_Inr)

lemma to_drop_constraint_version_dom:
  "to_drop_constraint_version a = Inr p \<Longrightarrow> dom p = {''constraintName'', ''tableName''}"
  by (auto simp: to_drop_constraint_version_eq_Inr split: if_splits)

text \<open>Two key records are equal exactly when both of their values are.\<close>

lemma key_record_eq_iff:
  "[''constraintName'' \<mapsto> c, ''tableName'' \<mapsto> t] = [''constraintName'' \<mapsto> c', ''tableName'' \<mapsto> t']
   \<longleftrightarrow> c = c' \<and> t = t'"
proof
  assume eq: "[''constraintName'' \<mapsto> c, ''tableName'' \<mapsto> t]
    = [''constraintName'' \<mapsto> c', ''tableName'' \<mapsto> t']"
  from fun_cong [OF eq, of "''constraintName''"] fun_cong [OF eq, of "''tableName''"]
  show "c = c' \<and> t = t'" by simp
qed simp

lemma adds_to_add_drop_constraints_eq_Inr:
  "adds_to_add_drop_constraints master new = Inr (d, a) \<longleftrightarrow>
   (\<exists>cols tbl old_name new_name.
      master ''columnNames'' = Some cols \<and> new ''columnNames'' = Some cols \<and>
      master ''tableName'' = Some tbl \<and> new ''tableName'' = Some tbl \<and>
      master ''constraintName'' = Some old_name \<and> new ''constraintName'' = Some new_name \<and>
      d = [''constraintName'' \<mapsto> old_name, ''tableName'' \<mapsto> tbl] \<and>
      a = [''columnNames'' \<mapsto> cols, ''constraintName'' \<mapsto> new_name,
          ''deferrable'' \<mapsto> ''false'', ''disabled'' \<mapsto> ''false'',
          ''initiallyDeferred'' \<mapsto> ''false'', ''tableName'' \<mapsto> tbl])"
  unfolding adds_to_add_drop_constraints_def
  by (auto simp: bind_eq_Inr getitem_eq_Inr to_drop_constraint_version_eq_Inr
      split: if_splits)

subsection \<open>The filter as a list filter\<close>

lemma remove_dropped_adds_filter:
  "remove_dropped_adds additions drops = Inr r \<Longrightarrow>
   r = filter (\<lambda>a. \<forall>d\<in>set drops. to_drop_constraint_version a \<noteq> Inr d) additions"
proof (induction additions arbitrary: r)
  case Nil
  then show ?case by simp
next
  case (Cons a additions)
  then show ?case by (auto simp: bind_eq_Inr)
qed

lemma remove_dropped_adds_defined:
  "remove_dropped_adds additions drops = Inr r \<Longrightarrow>
   \<forall>a\<in>set additions. \<exists>p. to_drop_constraint_version a = Inr p"
  by (induction additions arbitrary: r) (auto simp: bind_eq_Inr)

lemma remove_dropped_adds_total:
  "\<forall>a\<in>set additions. \<exists>p. to_drop_constraint_version a = Inr p \<Longrightarrow>
   \<exists>r. remove_dropped_adds additions drops = Inr r"
proof (induction additions)
  case Nil
  then show ?case by simp
next
  case (Cons a additions)
  then obtain p r where "to_drop_constraint_version a = Inr p"
    and "remove_dropped_adds additions drops = Inr r"
    by auto
  then show ?case by simp
qed

subsection \<open>Key records and assertion failures\<close>

lemma key_record_eqI:
  assumes "dom d = {''constraintName'', ''tableName''}"
    and "d ''constraintName'' = Some c" and "d ''tableName'' = Some t"
  shows "d = [''constraintName'' \<mapsto> c, ''tableName'' \<mapsto> t]"
proof (rule ext)
  fix k
  show "d k = [''constraintName'' \<mapsto> c, ''tableName'' \<mapsto> t] k"
  proof (cases "k \<in> {''constraintName'', ''tableName''}")
    case True
    with assms(2,3) show ?thesis by auto
  next
    case False
    with assms(1) have "d k = None" by (auto simp: domIff)
    with False show ?thesis by simp
  qed
qed

lemma to_drop_constraint_version_no_assertion:
  "to_drop_constraint_version d \<noteq> Inl AssertionError"
  by (simp add: to_drop_constraint_version_def getitem_def bind_def split: option.splits)

lemma remove_dropped_adds_no_assertion:
  "remove_dropped_adds additions drops \<noteq> Inl AssertionError"
proof (induction additions)
  case Nil
  then show ?case by simp
next
  case (Cons a additions)
  show ?case
  proof (cases "to_drop_constraint_version a")
    case (Inl e)
    with to_drop_constraint_version_no_assertion [of a] show ?thesis by simp
  next
    case (Inr d)
    with Cons show ?thesis
      by (cases "remove_dropped_adds additions drops") simp_all
  qed
qed

lemma adds_to_add_drop_constraints_assertion:
  assumes "master ''columnNames'' = Some mc" and "new ''columnNames'' = Some nc"
    and "master ''tableName'' = Some mt" and "new ''tableName'' = Some nt"
  shows "adds_to_add_drop_constraints master new = Inl AssertionError \<longleftrightarrow> mc \<noteq> nc \<or> mt \<noteq> nt"
  using assms
  by (simp add: adds_to_add_drop_constraints_def to_drop_constraint_version_def getitem_def bind_def
      split: option.splits)

subsection \<open>The join as a list comprehension\<close>

lemma merge_cond_value:
  "merge_cond master new = Inr b \<Longrightarrow>
   b = (master ''tableName'' = new ''tableName'' \<and> master ''columnNames'' = new ''columnNames''
        \<and> master ''constraintName'' \<noteq> new ''constraintName'')"
  unfolding merge_cond_def getitem_def
  by (simp split: option.splits if_splits)

lemma merge_cond_True:
  "merge_cond master new = Inr True \<Longrightarrow>
   (\<exists>t c mn nn. master ''tableName'' = Some t \<and> new ''tableName'' = Some t \<and>
      master ''columnNames'' = Some c \<and> new ''columnNames'' = Some c \<and>
      master ''constraintName'' = Some mn \<and> new ''constraintName'' = Some nn \<and> mn \<noteq> nn)"
  unfolding merge_cond_def getitem_def
  by (simp split: option.splits if_splits)

lemma merge_cond_Some:
  "master ''tableName'' = Some mt \<Longrightarrow> master ''columnNames'' = Some mc \<Longrightarrow>
   master ''constraintName'' = Some mn \<Longrightarrow> new ''tableName'' = Some nt \<Longrightarrow>
   new ''columnNames'' = Some nc \<Longrightarrow> new ''constraintName'' = Some nn \<Longrightarrow>
   merge_cond master new = Inr (mt = nt \<and> mc = nc \<and> mn \<noteq> nn)"
  by (simp add: merge_cond_def)

lemma merge_cond_total:
  assumes "{''tableName'', ''columnNames'', ''constraintName''} \<subseteq> dom master"
    and "{''tableName'', ''columnNames'', ''constraintName''} \<subseteq> dom new"
  shows "\<exists>b. merge_cond master new = Inr b"
proof -
  from assms obtain mt mc mn nt nc nn where
    "master ''tableName'' = Some mt" "master ''columnNames'' = Some mc"
    "master ''constraintName'' = Some mn" "new ''tableName'' = Some nt"
    "new ''columnNames'' = Some nc" "new ''constraintName'' = Some nn"
    by auto
  then show ?thesis using merge_cond_Some by blast
qed

lemma merge_cond_no_assertion: "merge_cond master new \<noteq> Inl AssertionError"
  by (simp add: merge_cond_def getitem_def bind_def split: option.splits)

lemma merge_row_value:
  "merge_row master new_list = Inr row \<Longrightarrow>
   row = map (Pair master) (filter (\<lambda>new. merge_cond master new = Inr True) new_list)"
proof (induction new_list arbitrary: row)
  case Nil
  then show ?case by simp
next
  case (Cons new new_list)
  from Cons.prems obtain b rest where b: "merge_cond master new = Inr b"
    and rest: "merge_row master new_list = Inr rest"
    and row: "row = (if b then (master, new) # rest else rest)"
    by (auto simp: bind_eq_Inr)
  from Cons.IH [OF rest] b row show ?case by simp
qed

lemma merge_row_defined:
  "merge_row master new_list = Inr row \<Longrightarrow> new \<in> set new_list \<Longrightarrow> \<exists>b. merge_cond master new = Inr b"
proof (induction new_list arbitrary: row)
  case Nil
  then show ?case by simp
next
  case (Cons n new_list)
  from Cons.prems(1) obtain b rest where b: "merge_cond master n = Inr b"
    and rest: "merge_row master new_list = Inr rest"
    by (auto simp: bind_eq_Inr)
  with Cons.IH [OF rest] Cons.prems(2) show ?case by auto
qed

lemma merge_row_total:
  "\<forall>new\<in>set new_list. \<exists>b. merge_cond master new = Inr b \<Longrightarrow> \<exists>row. merge_row master new_list = Inr row"
proof (induction new_list)
  case Nil
  then show ?case by simp
next
  case (Cons new new_list)
  then obtain b row where "merge_cond master new = Inr b" and "merge_row master new_list = Inr row"
    by auto
  then show ?case by simp
qed

lemma merge_row_no_assertion: "merge_row master new_list \<noteq> Inl AssertionError"
proof (induction new_list)
  case Nil
  then show ?case by simp
next
  case (Cons new new_list)
  show ?case
  proof (cases "merge_cond master new")
    case (Inl e)
    with merge_cond_no_assertion [of master new] show ?thesis by simp
  next
    case (Inr b)
    with Cons show ?thesis
      by (cases "merge_row master new_list") simp_all
  qed
qed

lemma merge_value:
  "merge_master_adds_and_new_adds master_list new_list = Inr ps \<Longrightarrow>
   ps = concat (map (\<lambda>master. map (Pair master)
          (filter (\<lambda>new. merge_cond master new = Inr True) new_list)) master_list)"
proof (induction master_list arbitrary: ps)
  case Nil
  then show ?case by simp
next
  case (Cons master master_list)
  from Cons.prems obtain row rest where row: "merge_row master new_list = Inr row"
    and rest: "merge_master_adds_and_new_adds master_list new_list = Inr rest"
    and ps: "ps = row @ rest"
    by (auto simp: bind_eq_Inr)
  from Cons.IH [OF rest] merge_row_value [OF row] ps show ?case by simp
qed

lemma merge_defined:
  "merge_master_adds_and_new_adds master_list new_list = Inr ps \<Longrightarrow>
   master \<in> set master_list \<Longrightarrow> new \<in> set new_list \<Longrightarrow> \<exists>b. merge_cond master new = Inr b"
proof (induction master_list arbitrary: ps)
  case Nil
  then show ?case by simp
next
  case (Cons m master_list)
  from Cons.prems(1) obtain row rest where row: "merge_row m new_list = Inr row"
    and rest: "merge_master_adds_and_new_adds master_list new_list = Inr rest"
    by (auto simp: bind_eq_Inr)
  show ?case
  proof (cases "master = m")
    case True
    with merge_row_defined [OF row Cons.prems(3)] show ?thesis by simp
  next
    case False
    with Cons.prems(2) have "master \<in> set master_list" by simp
    from Cons.IH [OF rest this Cons.prems(3)] show ?thesis .
  qed
qed

lemma merge_total:
  "\<forall>master\<in>set master_list. \<forall>new\<in>set new_list. \<exists>b. merge_cond master new = Inr b \<Longrightarrow>
   \<exists>ps. merge_master_adds_and_new_adds master_list new_list = Inr ps"
proof (induction master_list)
  case Nil
  then show ?case by simp
next
  case (Cons master master_list)
  then obtain row where "merge_row master new_list = Inr row"
    using merge_row_total [of new_list master] by auto
  moreover from Cons obtain ps where "merge_master_adds_and_new_adds master_list new_list = Inr ps"
    by auto
  ultimately show ?case by simp
qed

lemma merge_total_wf:
  assumes "\<forall>r\<in>set master_list \<union> set new_list.
          {''tableName'', ''columnNames'', ''constraintName''} \<subseteq> dom r"
  shows "\<exists>ps. merge_master_adds_and_new_adds master_list new_list = Inr ps"
proof (rule merge_total, intro ballI)
  fix master new
  assume "master \<in> set master_list" and "new \<in> set new_list"
  with assms have "{''tableName'', ''columnNames'', ''constraintName''} \<subseteq> dom master"
    and "{''tableName'', ''columnNames'', ''constraintName''} \<subseteq> dom new"
    by simp_all
  then show "\<exists>b. merge_cond master new = Inr b"
    by (rule merge_cond_total)
qed

lemma merge_no_assertion:
  "merge_master_adds_and_new_adds master_list new_list \<noteq> Inl AssertionError"
proof (induction master_list)
  case Nil
  then show ?case by simp
next
  case (Cons master master_list)
  show ?case
  proof (cases "merge_row master new_list")
    case (Inl e)
    with merge_row_no_assertion [of master new_list] show ?thesis by simp
  next
    case (Inr row)
    with Cons show ?thesis
      by (cases "merge_master_adds_and_new_adds master_list new_list") simp_all
  qed
qed

lemma pairs_filter_concat:
  "map (Pair x) (filter P ys) = concat (map (\<lambda>y. if P y then [(x, y)] else []) ys)"
  by (induction ys) simp_all

lemma in_set_pairs_iff:
  "(m, n) \<in> set (concat (map (\<lambda>x. concat (map (\<lambda>y. if C x y then [(x, y)] else []) ys)) xs))
   \<longleftrightarrow> m \<in> set xs \<and> n \<in> set ys \<and> C m n"
  by (auto split: if_splits)

lemma merge_cond_iff:
  assumes "merge_master_adds_and_new_adds master_list new_list = Inr ps"
    and "master \<in> set master_list" and "new \<in> set new_list"
  shows "(merge_cond master new = Inr True) =
     (master ''tableName'' = new ''tableName'' \<and>
      master ''columnNames'' = new ''columnNames'' \<and>
      master ''constraintName'' \<noteq> new ''constraintName'')"
proof -
  from merge_defined [OF assms] obtain b where b: "merge_cond master new = Inr b" ..
  from merge_cond_value [OF b] b show ?thesis by simp
qed

lemma merge_comprehension:
  assumes "merge_master_adds_and_new_adds master_list new_list = Inr ps"
  shows "ps = concat (map (\<lambda>master. concat (map (\<lambda>new.
            if master ''tableName'' = new ''tableName'' \<and>
               master ''columnNames'' = new ''columnNames'' \<and>
               master ''constraintName'' \<noteq> new ''constraintName''
            then [(master, new)] else []) new_list)) master_list)"
proof -
  have "map (\<lambda>master. map (Pair master)
          (filter (\<lambda>new. merge_cond master new = Inr True) new_list)) master_list
     = map (\<lambda>master. concat (map (\<lambda>new.
            if master ''tableName'' = new ''tableName'' \<and>
               master ''columnNames'' = new ''columnNames'' \<and>
               master ''constraintName'' \<noteq> new ''constraintName''
            then [(master, new)] else []) new_list)) master_list"
  proof (rule map_cong [OF refl])
    fix master assume m: "master \<in> set master_list"
    have "filter (\<lambda>new. merge_cond master new = Inr True) new_list
       = filter (\<lambda>new. master ''tableName'' = new ''tableName'' \<and>
               master ''columnNames'' = new ''columnNames'' \<and>
               master ''constraintName'' \<noteq> new ''constraintName'') new_list"
      by (rule filter_cong [OF refl]) (rule merge_cond_iff [OF assms m])
    then show "map (Pair master) (filter (\<lambda>new. merge_cond master new = Inr True) new_list)
       = concat (map (\<lambda>new.
            if master ''tableName'' = new ''tableName'' \<and>
               master ''columnNames'' = new ''columnNames'' \<and>
               master ''constraintName'' \<noteq> new ''constraintName''
            then [(master, new)] else []) new_list)"
      by (simp only: pairs_filter_concat)
  qed
  then show ?thesis
    by (simp only: merge_value [OF assms])
qed

lemma merge_pair_ok:
  assumes "merge_master_adds_and_new_adds master_list new_list = Inr ps"
    and "(master, new) \<in> set ps"
  shows "\<exists>t c mn nn. master ''tableName'' = Some t \<and> new ''tableName'' = Some t \<and>
      master ''columnNames'' = Some c \<and> new ''columnNames'' = Some c \<and>
      master ''constraintName'' = Some mn \<and> new ''constraintName'' = Some nn \<and> mn \<noteq> nn"
proof -
  from assms(2) have "merge_cond master new = Inr True"
    unfolding merge_value [OF assms(1)] by auto
  then show ?thesis by (rule merge_cond_True)
qed

lemma merge_pair_renamed:
  assumes "merge_master_adds_and_new_adds master_list new_list = Inr ps"
    and "(master, new) \<in> set ps"
  shows "\<exists>r. adds_to_add_drop_constraints master new = Inr r"
proof -
  from merge_pair_ok [OF assms] obtain t c mn nn where
    "master ''columnNames'' = Some c" "new ''columnNames'' = Some c"
    "master ''tableName'' = Some t" "new ''tableName'' = Some t"
    "master ''constraintName'' = Some mn" "new ''constraintName'' = Some nn"
    by blast
  then show ?thesis
    by (simp add: adds_to_add_drop_constraints_def to_drop_constraint_version_Some)
qed

subsection \<open>The pipeline\<close>

lemma renames_defined:
  "\<forall>p\<in>set ps. \<exists>r. adds_to_add_drop_constraints (fst p) (snd p) = Inr r \<Longrightarrow>
   \<exists>rs. renames ps = Inr rs"
proof (induction ps)
  case Nil
  then show ?case by simp
next
  case (Cons p ps)
  obtain master new where p: "p = (master, new)" by (cases p)
  with Cons.prems obtain r where "adds_to_add_drop_constraints master new = Inr r" by auto
  moreover from Cons obtain rs where "renames ps = Inr rs" by auto
  ultimately show ?case using p by simp
qed

lemma renames_members:
  "renames ps = Inr rs \<Longrightarrow> r \<in> set rs \<Longrightarrow>
   \<exists>(master, new)\<in>set ps. adds_to_add_drop_constraints master new = Inr r"
proof (induction ps arbitrary: rs)
  case Nil
  then show ?case by simp
next
  case (Cons p ps)
  obtain master new where p: "p = (master, new)" by (cases p)
  from Cons.prems(1) p obtain x rest where x: "adds_to_add_drop_constraints master new = Inr x"
    and rest: "renames ps = Inr rest" and rs: "rs = x # rest"
    by (auto simp: bind_eq_Inr)
  show ?case
  proof (cases "r = x")
    case True
    with x p show ?thesis by auto
  next
    case False
    with Cons.prems(2) rs have "r \<in> set rest" by simp
    from Cons.IH [OF rest this] show ?thesis by auto
  qed
qed

lemma xml_diff_no_assertion:
  "xml_diff adds drops new_constraints \<noteq> Inl AssertionError"
proof (cases "remove_dropped_adds adds drops")
  case (Inl e)
  with remove_dropped_adds_no_assertion [of adds drops] show ?thesis
    by (simp add: xml_diff_def)
next
  case filtered: (Inr filtered)
  show ?thesis
  proof (cases "merge_master_adds_and_new_adds filtered new_constraints")
    case (Inl e)
    with merge_no_assertion [of filtered new_constraints] filtered show ?thesis
      by (simp add: xml_diff_def)
  next
    case (Inr ps)
    have "\<forall>p\<in>set ps. \<exists>r. adds_to_add_drop_constraints (fst p) (snd p) = Inr r"
    proof
      fix p assume "p \<in> set ps"
      then have "(fst p, snd p) \<in> set ps" by simp
      from merge_pair_renamed [OF Inr this]
      show "\<exists>r. adds_to_add_drop_constraints (fst p) (snd p) = Inr r" .
    qed
    then obtain rs where "renames ps = Inr rs"
      using renames_defined by blast
    with Inr filtered show ?thesis by (simp add: xml_diff_def)
  qed
qed

lemma xml_diff_members:
  assumes "xml_diff adds drops new_constraints = Inr diff" and "(d, a) \<in> set diff"
  shows "\<exists>master new. master \<in> set adds \<and> new \<in> set new_constraints \<and>
     adds_to_add_drop_constraints master new = Inr (d, a)"
proof -
  from assms(1) obtain filtered ps where f: "remove_dropped_adds adds drops = Inr filtered"
    and ps: "merge_master_adds_and_new_adds filtered new_constraints = Inr ps"
    and rs: "renames ps = Inr diff"
    by (auto simp: xml_diff_def bind_eq_Inr)
  from renames_members [OF rs assms(2)] obtain master new where mem: "(master, new) \<in> set ps"
    and run: "adds_to_add_drop_constraints master new = Inr (d, a)"
    by auto
  from mem have "master \<in> set filtered \<and> new \<in> set new_constraints"
    unfolding merge_comprehension [OF ps] in_set_pairs_iff by simp
  moreover have "set filtered \<subseteq> set adds"
    unfolding remove_dropped_adds_filter [OF f] by simp
  ultimately show ?thesis using run by blast
qed

lemma xml_diff_example:
  "xml_diff
     [[''columnNames'' \<mapsto> ''uuid'', ''constraintName'' \<mapsto> ''A'', ''deferrable'' \<mapsto> ''true'',
       ''disabled'' \<mapsto> ''true'', ''initiallyDeferred'' \<mapsto> ''true'', ''tableName'' \<mapsto> ''T'']]
     []
     [[''columnNames'' \<mapsto> ''uuid'', ''constraintName'' \<mapsto> ''B'', ''tableName'' \<mapsto> ''T'']]
   = Inr [([''constraintName'' \<mapsto> ''A'', ''tableName'' \<mapsto> ''T''],
           [''columnNames'' \<mapsto> ''uuid'', ''constraintName'' \<mapsto> ''B'',
            ''deferrable'' \<mapsto> ''false'', ''disabled'' \<mapsto> ''false'',
            ''initiallyDeferred'' \<mapsto> ''false'', ''tableName'' \<mapsto> ''T''])]"
  by (simp add: xml_diff_def to_drop_constraint_version_def merge_cond_def
      adds_to_add_drop_constraints_def)

subsection \<open>The store after each step\<close>

lemma SubElement_split:
  "SubElement (length A) t a (A @ p # B) =
     (length A + 1 + length B,
      A @ p\<lparr>el_children := el_children p @ [length A + 1 + length B]\<rparr> # B @ [leaf t a])"
  by (simp add: SubElement_def Element_def nth_append list_update_append)

lemma set_text_split:
  "set_text (length A) s (A @ p # B) = A @ p\<lparr>el_text := Some s\<rparr> # B"
  by (simp add: set_text_def nth_append list_update_append)

lemma add_properties_split:
  "add_properties (length A) properties (A @ p # B) =
     A @ p\<lparr>el_children := el_children p
            @ [length A + 1 + length B ..< length A + 1 + length B + length properties]\<rparr>
       # B @ map (leaf ''property'') properties"
proof (induction properties arbitrary: p B)
  case Nil
  then show ?case by simp
next
  case (Cons x xs)
  have "add_properties (length A) (x # xs) (A @ p # B)
      = add_properties (length A) xs
          (A @ p\<lparr>el_children := el_children p @ [length A + 1 + length B]\<rparr>
             # (B @ [leaf ''property'' x]))"
    by (simp add: SubElement_split)
  also have "\<dots> = A @ p\<lparr>el_children := (el_children p @ [length A + 1 + length B])
            @ [length A + 1 + length (B @ [leaf ''property'' x])
               ..< length A + 1 + length (B @ [leaf ''property'' x]) + length xs]\<rparr>
       # (B @ [leaf ''property'' x]) @ map (leaf ''property'') xs"
    by (subst Cons.IH) simp
  also have "\<dots> = A @ p\<lparr>el_children := el_children p
            @ [length A + 1 + length B ..< length A + 1 + length B + length (x # xs)]\<rparr>
       # B @ map (leaf ''property'') (x # xs)"
    by (simp add: upt_conv_Cons del: upt_Suc)
  finally show ?case .
qed

lemma length_constraint_nodes: "length (constraint_nodes ps) = 2 * length ps"
  by (induction ps) auto

lemma add_constraints_split:
  "add_constraints (length A) ps (A @ p # B) =
     A @ p\<lparr>el_children := el_children p
            @ [length A + 1 + length B ..< length A + 1 + length B + 2 * length ps]\<rparr>
       # B @ constraint_nodes ps"
proof (induction ps arbitrary: p B)
  case Nil
  then show ?case by simp
next
  case (Cons x xs)
  obtain d a where x: "x = (d, a)" by (cases x)
  let ?B = "B @ [leaf ''dropUniqueConstraint'' d, leaf ''addUniqueConstraint'' a]"
  let ?p = "p\<lparr>el_children := el_children p
      @ [length A + 1 + length B, length A + 1 + length B + 1]\<rparr>"
  have "snd (SubElement (length A) ''dropUniqueConstraint'' d (A @ p # B))
      = A @ p\<lparr>el_children := el_children p @ [length A + 1 + length B]\<rparr>
          # (B @ [leaf ''dropUniqueConstraint'' d])"
    by (simp add: SubElement_split)
  then have "snd (SubElement (length A) ''addUniqueConstraint'' a
         (snd (SubElement (length A) ''dropUniqueConstraint'' d (A @ p # B))))
      = A @ ?p # ?B"
    by (simp add: SubElement_split)
  then have "add_constraints (length A) (x # xs) (A @ p # B)
      = add_constraints (length A) xs (A @ ?p # ?B)"
    by (simp add: x)
  also have "\<dots> = A @ ?p\<lparr>el_children := el_children ?p
            @ [length A + 1 + length ?B ..< length A + 1 + length ?B + 2 * length xs]\<rparr>
       # ?B @ constraint_nodes xs"
    by (rule Cons.IH)
  also have "\<dots> = A @ p\<lparr>el_children := el_children p
            @ [length A + 1 + length B ..< length A + 1 + length B + 2 * length (x # xs)]\<rparr>
       # B @ constraint_nodes (x # xs)"
    by (simp add: x upt_conv_Cons del: upt_Suc)
  finally show ?case .
qed

lemma changelog_heap:
  fixes h0 :: heap
  defines "n \<equiv> length h0"
  shows "add_and_removes_to_changelog_xml user ps props change_id h0 =
    (n,
     h0 @ \<lparr>el_tag = ''databaseChangeLog'', el_attrib = ns, el_text = None,
            el_children = [n + 1 ..< n + 1 + length props] @ [n + 1 + length props]\<rparr>
        # map (leaf ''property'') props
        @ \<lparr>el_tag = ''changeSet'', el_attrib = [''author'' \<mapsto> user, ''id'' \<mapsto> change_id],
            el_text = None,
            el_children = (n + 2 + length props)
              # [n + 3 + length props ..< n + 3 + length props + 2 * length ps]
              @ [n + 3 + length props + 2 * length ps]\<rparr>
        # \<lparr>el_tag = ''comment'', el_attrib = Map.empty, el_text = Some comment_text,
            el_children = []\<rparr>
        # constraint_nodes ps
        @ [\<lparr>el_tag = ''modifySql'', el_attrib = [''dbms'' \<mapsto> ''postgresql''], el_text = None,
             el_children = [n + 4 + length props + 2 * length ps]\<rparr>,
           leaf ''replace'' [''replace'' \<mapsto> ''WITH'', ''with'' \<mapsto> ''WITHOUT'']])"
proof -
  let ?P = "length props" and ?Q = "length ps"
  let ?PL = "map (leaf ''property'') props"
  let ?csa = "[''author'' \<mapsto> user, ''id'' \<mapsto> change_id]"
  let ?Ta = "leaf ''databaseChangeLog'' ns"
  let ?Tb = "?Ta\<lparr>el_children := [n + 1 ..< n + 1 + ?P]\<rparr>"
  let ?Tc = "?Ta\<lparr>el_children := [n + 1 ..< n + 1 + ?P] @ [n + 1 + ?P]\<rparr>"
  let ?CSa = "leaf ''changeSet'' ?csa"
  let ?CSb = "?CSa\<lparr>el_children := [n + 2 + ?P]\<rparr>"
  let ?CSc = "?CSa\<lparr>el_children := (n + 2 + ?P) # [n + 3 + ?P ..< n + 3 + ?P + 2 * ?Q]\<rparr>"
  let ?CSd = "?CSa\<lparr>el_children := (n + 2 + ?P) # [n + 3 + ?P ..< n + 3 + ?P + 2 * ?Q]
      @ [n + 3 + ?P + 2 * ?Q]\<rparr>"
  let ?CMa = "leaf ''comment'' Map.empty"
  let ?CMb = "?CMa\<lparr>el_text := Some comment_text\<rparr>"
  let ?MSa = "leaf ''modifySql'' [''dbms'' \<mapsto> ''postgresql'']"
  let ?MSb = "?MSa\<lparr>el_children := [n + 4 + ?P + 2 * ?Q]\<rparr>"
  let ?R = "leaf ''replace'' [''replace'' \<mapsto> ''WITH'', ''with'' \<mapsto> ''WITHOUT'']"
  have s1: "Element ''databaseChangeLog'' ns h0 = (n, h0 @ [?Ta])"
    by (simp add: Element_def n_def)
  have s2: "add_properties n props (h0 @ [?Ta]) = h0 @ ?Tb # ?PL"
    using add_properties_split [of h0 props ?Ta "[]"] by (simp add: n_def eval_nat_numeral add.assoc del: upt_Suc)
  have s3: "SubElement n ''changeSet'' ?csa (h0 @ ?Tb # ?PL)
      = (n + 1 + ?P, h0 @ ?Tc # ?PL @ [?CSa])"
    using SubElement_split [of h0 "''changeSet''" ?csa ?Tb ?PL] by (simp add: n_def eval_nat_numeral add.assoc del: upt_Suc)
  have s4: "SubElement (n + 1 + ?P) ''comment'' Map.empty (h0 @ ?Tc # ?PL @ [?CSa])
      = (n + 2 + ?P, h0 @ ?Tc # ?PL @ [?CSb, ?CMa])"
    using SubElement_split [of "h0 @ ?Tc # ?PL" "''comment''" Map.empty ?CSa "[]"]
    by (simp add: n_def eval_nat_numeral add.assoc del: upt_Suc)
  have s5: "set_text (n + 2 + ?P) comment_text (h0 @ ?Tc # ?PL @ [?CSb, ?CMa])
      = h0 @ ?Tc # ?PL @ [?CSb, ?CMb]"
    using set_text_split [of "h0 @ ?Tc # ?PL @ [?CSb]" comment_text ?CMa "[]"]
    by (simp add: n_def eval_nat_numeral add.assoc del: upt_Suc)
  have s6: "add_constraints (n + 1 + ?P) ps (h0 @ ?Tc # ?PL @ [?CSb, ?CMb])
      = h0 @ ?Tc # ?PL @ ?CSc # ?CMb # constraint_nodes ps"
    using add_constraints_split [of "h0 @ ?Tc # ?PL" ps ?CSb "[?CMb]"]
    by (simp add: n_def eval_nat_numeral add.assoc del: upt_Suc)
  have s7: "SubElement (n + 1 + ?P) ''modifySql'' [''dbms'' \<mapsto> ''postgresql'']
        (h0 @ ?Tc # ?PL @ ?CSc # ?CMb # constraint_nodes ps)
      = (n + 3 + ?P + 2 * ?Q, h0 @ ?Tc # ?PL @ ?CSd # ?CMb # constraint_nodes ps @ [?MSa])"
    using SubElement_split [of "h0 @ ?Tc # ?PL" "''modifySql''" "[''dbms'' \<mapsto> ''postgresql'']"
        ?CSc "?CMb # constraint_nodes ps"]
    by (simp add: n_def length_constraint_nodes eval_nat_numeral add.assoc del: upt_Suc)
  have s8: "SubElement (n + 3 + ?P + 2 * ?Q) ''replace'' [''replace'' \<mapsto> ''WITH'', ''with'' \<mapsto> ''WITHOUT'']
        (h0 @ ?Tc # ?PL @ ?CSd # ?CMb # constraint_nodes ps @ [?MSa])
      = (n + 4 + ?P + 2 * ?Q, h0 @ ?Tc # ?PL @ ?CSd # ?CMb # constraint_nodes ps @ [?MSb, ?R])"
    using SubElement_split [of "h0 @ ?Tc # ?PL @ ?CSd # ?CMb # constraint_nodes ps" "''replace''"
        "[''replace'' \<mapsto> ''WITH'', ''with'' \<mapsto> ''WITHOUT'']" ?MSa "[]"]
    by (simp add: n_def length_constraint_nodes eval_nat_numeral add.assoc del: upt_Suc)
  show ?thesis
    unfolding add_and_removes_to_changelog_xml_def
    by (simp only: s1 s2 s3 s4 s5 s6 s7 s8 Let_def prod.case) simp
qed

subsection \<open>Reading the tree\<close>

lemma those_append:
  "those xs = Some a \<Longrightarrow> those ys = Some b \<Longrightarrow> those (xs @ ys) = Some (a @ b)"
  by (induction xs arbitrary: a) (auto split: option.splits)

lemma those_map_Some:
  "(\<And>x. x \<in> set xs \<Longrightarrow> f x = Some (g x)) \<Longrightarrow> those (map f xs) = Some (map g xs)"
  by (induction xs) simp_all

lemma tree_of_leaf:
  "i < length H \<Longrightarrow> el_children (H ! i) = [] \<Longrightarrow> tree_of (Suc k) H i = Some (flat (H ! i))"
  by simp

lemma tree_of_block:
  assumes "\<forall>l\<in>set ls. el_children l = []"
  shows "those (map (tree_of (Suc k) (A @ ls @ B)) [length A ..< length A + length ls])
    = Some (map flat ls)"
proof -
  let ?H = "A @ ls @ B"
  have nth: "?H ! (length A + j) = ls ! j" if "j < length ls" for j
    using that by (simp add: nth_append)
  have "those (map (tree_of (Suc k) ?H) [length A ..< length A + length ls])
      = Some (map (\<lambda>i. flat (?H ! i)) [length A ..< length A + length ls])"
  proof (rule those_map_Some)
    fix i assume "i \<in> set [length A ..< length A + length ls]"
    then obtain j where j: "i = length A + j" "j < length ls"
      by (auto simp: le_iff_add)
    with assms nth [of j] have "el_children (?H ! i) = []" by simp
    moreover from j have "i < length ?H" by simp
    ultimately show "tree_of (Suc k) ?H i = Some (flat (?H ! i))"
      by (rule tree_of_leaf [rotated])
  qed
  also have "map (\<lambda>i. flat (?H ! i)) [length A ..< length A + length ls] = map flat ls"
  proof (rule nth_equalityI)
    show "length (map (\<lambda>i. flat (?H ! i)) [length A ..< length A + length ls]) = length (map flat ls)"
      by simp
  next
    fix j assume "j < length (map (\<lambda>i. flat (?H ! i)) [length A ..< length A + length ls])"
    then have "j < length ls" by simp
    then show "map (\<lambda>i. flat (?H ! i)) [length A ..< length A + length ls] ! j = map flat ls ! j"
      using nth [of j] by simp
  qed
  finally show ?thesis .
qed

lemma tree_of_changelog_shape:
  fixes h0 :: heap
  defines "n \<equiv> length h0"
  assumes PL: "\<forall>l\<in>set PL. el_children l = []"
    and CL: "\<forall>l\<in>set CL. el_children l = []"
    and R: "el_children R = []"
    and T: "el_children T = [n + 1 ..< n + 1 + length PL] @ [n + 1 + length PL]"
    and CS: "el_children CS = [n + 1 + length PL + 1 ..< n + 1 + length PL + 1 + length CL]
                @ [n + 1 + length PL + 1 + length CL]"
    and MS: "el_children MS = [n + 1 + length PL + 1 + length CL + 1]"
  shows "tree_of (Suc (Suc (Suc (Suc k)))) (h0 @ T # PL @ CS # CL @ [MS, R]) n
    = Some (Xml (el_tag T) (el_attrib T) (el_text T)
        (map flat PL @
         [Xml (el_tag CS) (el_attrib CS) (el_text CS)
           (map flat CL @ [Xml (el_tag MS) (el_attrib MS) (el_text MS) [flat R]])]))"
proof -
  let ?H = "h0 @ T # PL @ CS # CL @ [MS, R]"
  let ?cs = "n + 1 + length PL" 
  let ?ms = "n + 1 + length PL + 1 + length CL"
  have nT: "?H ! n = T"
    by (simp add: n_def)
  have nCS: "?H ! ?cs = CS"
    using nth_append_length [of "h0 @ T # PL" CS "CL @ [MS, R]"] by (simp add: n_def)
  have nMS: "?H ! ?ms = MS"
    using nth_append_length [of "h0 @ T # PL @ CS # CL" MS "[R]"] by (simp add: n_def add.assoc)
  have nR: "?H ! (?ms + 1) = R"
    using nth_append_length [of "h0 @ T # PL @ CS # CL @ [MS]" R "[]"] by (simp add: n_def add.assoc)
  have len: "length ?H = ?ms + 2"
    by (simp add: n_def)
  have tR: "tree_of (Suc k) ?H (?ms + 1) = Some (flat R)"
    using tree_of_leaf [of "?ms + 1" ?H k] nR R len by simp
  have tMS: "tree_of (Suc (Suc k)) ?H ?ms = Some (Xml (el_tag MS) (el_attrib MS) (el_text MS) [flat R])"
    using tR nMS MS len by (simp del: tree_of.simps(2) add: tree_of.simps(2) [of "Suc k"])
  have bCL: "those (map (tree_of (Suc (Suc k)) ?H) [?cs + 1 ..< ?cs + 1 + length CL])
      = Some (map flat CL)"
    using tree_of_block [OF CL, of "Suc k" "h0 @ T # PL @ [CS]" "[MS, R]"]
    by (simp add: n_def add.assoc)
  have tCS: "tree_of (Suc (Suc (Suc k))) ?H ?cs
      = Some (Xml (el_tag CS) (el_attrib CS) (el_text CS)
          (map flat CL @ [Xml (el_tag MS) (el_attrib MS) (el_text MS) [flat R]]))"
  proof -
    have "those (map (tree_of (Suc (Suc k)) ?H) (el_children CS))
        = Some (map flat CL @ [Xml (el_tag MS) (el_attrib MS) (el_text MS) [flat R]])"
      unfolding CS map_append
      by (rule those_append [OF bCL]) (simp only: list.map those.simps tMS option.case option.map)
    moreover have "?cs < length ?H" using len by simp
    ultimately show ?thesis
      by (simp only: tree_of.simps(2) nCS if_True option.map)
  qed
  have bPL: "those (map (tree_of (Suc (Suc (Suc k))) ?H) [n + 1 ..< n + 1 + length PL])
      = Some (map flat PL)"
    using tree_of_block [OF PL, of "Suc (Suc k)" "h0 @ [T]" "CS # CL @ [MS, R]"]
    by (simp add: n_def)
  have "those (map (tree_of (Suc (Suc (Suc k))) ?H) (el_children T))
      = Some (map flat PL @ [Xml (el_tag CS) (el_attrib CS) (el_text CS)
          (map flat CL @ [Xml (el_tag MS) (el_attrib MS) (el_text MS) [flat R]])])"
    unfolding T map_append
    by (rule those_append [OF bPL]) (simp only: list.map those.simps tCS option.case option.map)
  moreover have "n < length ?H" using len by simp
  ultimately show ?thesis
    by (simp only: tree_of.simps(2) nT if_True option.map)
qed

section \<open>ComputeRename\<close>

text \<open>
  Claim C1. For a master addition and a new addition with equal \<^verbatim>\<open>columnNames\<close> and equal
  \<^verbatim>\<open>tableName\<close> (each carrying its \<^verbatim>\<open>constraintName\<close>),
  \<^verbatim>\<open>adds_to_add_drop_constraints\<close> returns the pair whose drop is exactly the master's
  constraint name and table name, and whose add is exactly the master's column names and
  table name, the new constraint name, and the three flag attributes set to the literal
  \<^verbatim>\<open>"false"\<close>, whatever else (flags included) the two input records carry.
\<close>

theorem ComputeRename_result:
  assumes "master ''columnNames'' = Some cols" and "new ''columnNames'' = Some cols"
    and "master ''tableName'' = Some tbl" and "new ''tableName'' = Some tbl"
    and "master ''constraintName'' = Some old_name" and "new ''constraintName'' = Some new_name"
  shows "adds_to_add_drop_constraints master new =
    Inr ([''constraintName'' \<mapsto> old_name, ''tableName'' \<mapsto> tbl],
         [''columnNames'' \<mapsto> cols, ''constraintName'' \<mapsto> new_name,
          ''deferrable'' \<mapsto> ''false'', ''disabled'' \<mapsto> ''false'',
          ''initiallyDeferred'' \<mapsto> ''false'', ''tableName'' \<mapsto> tbl])"
  using assms
  by (simp add: adds_to_add_drop_constraints_def to_drop_constraint_version_Some)

text \<open>
  The example of the specification, with a master whose three flags are \<^verbatim>\<open>"true"\<close>: the
  add still carries \<^verbatim>\<open>"false"\<close>.
\<close>

theorem ComputeRename_result_witness:
  "adds_to_add_drop_constraints
     [''columnNames'' \<mapsto> ''uuid,macaddress,vlan'', ''constraintName'' \<mapsto> ''A'',
      ''deferrable'' \<mapsto> ''true'', ''disabled'' \<mapsto> ''true'',
      ''initiallyDeferred'' \<mapsto> ''true'', ''tableName'' \<mapsto> ''T'']
     [''columnNames'' \<mapsto> ''uuid,macaddress,vlan'', ''constraintName'' \<mapsto> ''B'',
      ''tableName'' \<mapsto> ''T'']
   = Inr ([''constraintName'' \<mapsto> ''A'', ''tableName'' \<mapsto> ''T''],
          [''columnNames'' \<mapsto> ''uuid,macaddress,vlan'', ''constraintName'' \<mapsto> ''B'',
           ''deferrable'' \<mapsto> ''false'', ''disabled'' \<mapsto> ''false'',
           ''initiallyDeferred'' \<mapsto> ''false'', ''tableName'' \<mapsto> ''T''])"
  using ComputeRename_result [of
      "[''columnNames'' \<mapsto> ''uuid,macaddress,vlan'', ''constraintName'' \<mapsto> ''A'',
        ''deferrable'' \<mapsto> ''true'', ''disabled'' \<mapsto> ''true'',
        ''initiallyDeferred'' \<mapsto> ''true'', ''tableName'' \<mapsto> ''T'']"
      "''uuid,macaddress,vlan''"
      "[''columnNames'' \<mapsto> ''uuid,macaddress,vlan'', ''constraintName'' \<mapsto> ''B'',
        ''tableName'' \<mapsto> ''T'']"
      "''T''" "''A''" "''B''"]
  by simp

text \<open>
  Claim C5, as stated, fails in its last clause, that only the constraint name differs
  between what is dropped and what is added. The constraint name need not differ: the
  rename of a record with itself drops and adds the same name. And the constraint name is
  not the only difference: the master constraint below is deferrable, disabled and
  initially deferred, and the add that replaces it has the three flags \<^verbatim>\<open>"false"\<close>.
\<close>

theorem RenamePair_only_name_differs_counterexample:
  "adds_to_add_drop_constraints
     [''columnNames'' \<mapsto> ''uuid'', ''constraintName'' \<mapsto> ''A'', ''tableName'' \<mapsto> ''T'']
     [''columnNames'' \<mapsto> ''uuid'', ''constraintName'' \<mapsto> ''A'', ''tableName'' \<mapsto> ''T'']
   = Inr ([''constraintName'' \<mapsto> ''A'', ''tableName'' \<mapsto> ''T''],
          [''columnNames'' \<mapsto> ''uuid'', ''constraintName'' \<mapsto> ''A'',
           ''deferrable'' \<mapsto> ''false'', ''disabled'' \<mapsto> ''false'',
           ''initiallyDeferred'' \<mapsto> ''false'', ''tableName'' \<mapsto> ''T''])
   \<and> adds_to_add_drop_constraints
     [''columnNames'' \<mapsto> ''uuid'', ''constraintName'' \<mapsto> ''A'', ''deferrable'' \<mapsto> ''true'',
      ''disabled'' \<mapsto> ''true'', ''initiallyDeferred'' \<mapsto> ''true'', ''tableName'' \<mapsto> ''T'']
     [''columnNames'' \<mapsto> ''uuid'', ''constraintName'' \<mapsto> ''B'', ''tableName'' \<mapsto> ''T'']
   = Inr ([''constraintName'' \<mapsto> ''A'', ''tableName'' \<mapsto> ''T''],
          [''columnNames'' \<mapsto> ''uuid'', ''constraintName'' \<mapsto> ''B'',
           ''deferrable'' \<mapsto> ''false'', ''disabled'' \<mapsto> ''false'',
           ''initiallyDeferred'' \<mapsto> ''false'', ''tableName'' \<mapsto> ''T''])"
  by (simp add: adds_to_add_drop_constraints_def to_drop_constraint_version_def)

text \<open>
  Claim C5, amended. In every pair \<open>(d, a)\<close> that \<^verbatim>\<open>adds_to_add_drop_constraints\<close> returns,
  the drop and the add name the same table (the master's) and the add has the master's
  column names. The drop consists of the master's constraint name and table name; the add
  consists of the column names, the new record's constraint name, the table name and the
  three flags, which are \<^verbatim>\<open>"false"\<close> whatever the master carries. So what is added
  differs from what is dropped in the constraint name exactly when the two input records
  have different names, and possibly in the flags; table and columns never differ. For
  the pairs that \<^verbatim>\<open>merge_master_adds_and_new_adds\<close> yields, the dropped and the added name
  do differ.
\<close>

theorem RenamePair_invariant:
  assumes "adds_to_add_drop_constraints master new = Inr (d, a)"
  shows "d ''tableName'' = a ''tableName'' \<and> a ''tableName'' = master ''tableName''
    \<and> master ''tableName'' \<noteq> None
    \<and> a ''columnNames'' = master ''columnNames'' \<and> master ''columnNames'' \<noteq> None
    \<and> d ''constraintName'' = master ''constraintName''
    \<and> a ''constraintName'' = new ''constraintName''
    \<and> dom d = {''constraintName'', ''tableName''}
    \<and> dom a = {''columnNames'', ''constraintName'', ''deferrable'', ''disabled'',
                ''initiallyDeferred'', ''tableName''}
    \<and> a ''deferrable'' = Some ''false'' \<and> a ''disabled'' = Some ''false''
    \<and> a ''initiallyDeferred'' = Some ''false''
    \<and> (d ''constraintName'' \<noteq> a ''constraintName''
          \<longleftrightarrow> master ''constraintName'' \<noteq> new ''constraintName'')
    \<and> (merge_master_adds_and_new_adds master_list new_list = Inr ps \<longrightarrow>
          (master, new) \<in> set ps \<longrightarrow> d ''constraintName'' \<noteq> a ''constraintName'')"
proof -
  from assms obtain cols tbl old_name new_name where
    m: "master ''columnNames'' = Some cols" "master ''tableName'' = Some tbl"
       "master ''constraintName'' = Some old_name"
    and n: "new ''constraintName'' = Some new_name"
    and d: "d = [''constraintName'' \<mapsto> old_name, ''tableName'' \<mapsto> tbl]"
    and a: "a = [''columnNames'' \<mapsto> cols, ''constraintName'' \<mapsto> new_name,
          ''deferrable'' \<mapsto> ''false'', ''disabled'' \<mapsto> ''false'',
          ''initiallyDeferred'' \<mapsto> ''false'', ''tableName'' \<mapsto> tbl]"
    unfolding adds_to_add_drop_constraints_eq_Inr by blast
  have tables: "d ''tableName'' = a ''tableName'' \<and> a ''tableName'' = master ''tableName''
      \<and> master ''tableName'' \<noteq> None"
    using m d a by simp
  have columns: "a ''columnNames'' = master ''columnNames'' \<and> master ''columnNames'' \<noteq> None"
    using m a by simp
  have names: "d ''constraintName'' = master ''constraintName''
      \<and> a ''constraintName'' = new ''constraintName''"
    using m n d a by simp
  have dom_d: "dom d = {''constraintName'', ''tableName''}"
    unfolding d by auto
  have dom_a: "dom a = {''columnNames'', ''constraintName'', ''deferrable'', ''disabled'',
                ''initiallyDeferred'', ''tableName''}"
    unfolding a by auto
  have flags: "a ''deferrable'' = Some ''false'' \<and> a ''disabled'' = Some ''false''
      \<and> a ''initiallyDeferred'' = Some ''false''"
    unfolding a by simp
  have differ: "d ''constraintName'' \<noteq> a ''constraintName''
      \<longleftrightarrow> master ''constraintName'' \<noteq> new ''constraintName''"
    using names by simp
  have merged: "merge_master_adds_and_new_adds master_list new_list = Inr ps \<longrightarrow>
      (master, new) \<in> set ps \<longrightarrow> d ''constraintName'' \<noteq> a ''constraintName''"
  proof (intro impI)
    assume ok: "merge_master_adds_and_new_adds master_list new_list = Inr ps"
      and mem: "(master, new) \<in> set ps"
    from merge_pair_ok [OF ok mem] have "master ''constraintName'' \<noteq> new ''constraintName''"
      by auto
    with differ show "d ''constraintName'' \<noteq> a ''constraintName''" by simp
  qed
  from tables columns names dom_d dom_a flags differ merged show ?thesis
    by (intro conjI) (erule conjunct1 conjunct2 | assumption | erule conjunct2 [THEN conjunct1] | erule conjunct2 [THEN conjunct2])+
qed

text \<open>
  The second doctest of \<^verbatim>\<open>adds_to_add_drop_constraints\<close>, as a pair of the join: the names
  dropped and added differ, table and columns do not.
\<close>

theorem RenamePair_invariant_witness:
  "adds_to_add_drop_constraints
     [''columnNames'' \<mapsto> ''uuid'', ''constraintName'' \<mapsto> ''externalgatewayjpa_uuid_key'',
      ''deferrable'' \<mapsto> ''false'', ''disabled'' \<mapsto> ''false'',
      ''initiallyDeferred'' \<mapsto> ''false'', ''tableName'' \<mapsto> ''externalgatewayjpa'']
     [''columnNames'' \<mapsto> ''uuid'', ''constraintName'' \<mapsto> ''uk_2pqcv4b75ribau4in54ppmyuu'',
      ''tableName'' \<mapsto> ''externalgatewayjpa'']
   = Inr ([''constraintName'' \<mapsto> ''externalgatewayjpa_uuid_key'',
           ''tableName'' \<mapsto> ''externalgatewayjpa''],
          [''columnNames'' \<mapsto> ''uuid'', ''constraintName'' \<mapsto> ''uk_2pqcv4b75ribau4in54ppmyuu'',
           ''deferrable'' \<mapsto> ''false'', ''disabled'' \<mapsto> ''false'',
           ''initiallyDeferred'' \<mapsto> ''false'', ''tableName'' \<mapsto> ''externalgatewayjpa''])
   \<and> dom [''constraintName'' \<mapsto> ''externalgatewayjpa_uuid_key'',
           ''tableName'' \<mapsto> ''externalgatewayjpa'']
       = {''constraintName'', ''tableName''}
   \<and> [''constraintName'' \<mapsto> ''externalgatewayjpa_uuid_key'',
        ''tableName'' \<mapsto> ''externalgatewayjpa''] ''constraintName''
     \<noteq> [''columnNames'' \<mapsto> ''uuid'', ''constraintName'' \<mapsto> ''uk_2pqcv4b75ribau4in54ppmyuu'',
           ''deferrable'' \<mapsto> ''false'', ''disabled'' \<mapsto> ''false'',
           ''initiallyDeferred'' \<mapsto> ''false'', ''tableName'' \<mapsto> ''externalgatewayjpa'']
          ''constraintName''"
proof -
  let ?m = "[''columnNames'' \<mapsto> ''uuid'', ''constraintName'' \<mapsto> ''externalgatewayjpa_uuid_key'',
      ''deferrable'' \<mapsto> ''false'', ''disabled'' \<mapsto> ''false'',
      ''initiallyDeferred'' \<mapsto> ''false'', ''tableName'' \<mapsto> ''externalgatewayjpa'']"
  let ?n = "[''columnNames'' \<mapsto> ''uuid'', ''constraintName'' \<mapsto> ''uk_2pqcv4b75ribau4in54ppmyuu'',
      ''tableName'' \<mapsto> ''externalgatewayjpa'']"
  let ?d = "[''constraintName'' \<mapsto> ''externalgatewayjpa_uuid_key'',
           ''tableName'' \<mapsto> ''externalgatewayjpa'']"
  let ?a = "[''columnNames'' \<mapsto> ''uuid'', ''constraintName'' \<mapsto> ''uk_2pqcv4b75ribau4in54ppmyuu'',
           ''deferrable'' \<mapsto> ''false'', ''disabled'' \<mapsto> ''false'',
           ''initiallyDeferred'' \<mapsto> ''false'', ''tableName'' \<mapsto> ''externalgatewayjpa'']"
  have run: "adds_to_add_drop_constraints ?m ?n = Inr (?d, ?a)"
    by (simp add: adds_to_add_drop_constraints_def to_drop_constraint_version_def)
  have merged: "merge_master_adds_and_new_adds [?m] [?n] = Inr [(?m, ?n)]"
    by (simp add: merge_cond_def)
  have mem: "(?m, ?n) \<in> set [(?m, ?n)]"
    by (rule list.set_intros(1))
  note inv = RenamePair_invariant [OF run, where master_list = "[?m]" and new_list = "[?n]"
      and ps = "[(?m, ?n)]"]
  have dom: "dom ?d = {''constraintName'', ''tableName''}"
    using inv by (elim conjE)
  have "merge_master_adds_and_new_adds [?m] [?n] = Inr [(?m, ?n)] \<longrightarrow>
      (?m, ?n) \<in> set [(?m, ?n)] \<longrightarrow> ?d ''constraintName'' \<noteq> ?a ''constraintName''"
    using inv by (elim conjE)
  then have "?d ''constraintName'' \<noteq> ?a ''constraintName''"
    using merged mem by (elim impE)
  with run dom show ?thesis by (intro conjI)
qed

text \<open>
  Claim C4. For records that carry \<^verbatim>\<open>columnNames\<close> and \<^verbatim>\<open>tableName\<close>,
  \<^verbatim>\<open>adds_to_add_drop_constraints\<close> aborts with a failed assertion if and only if the
  column names differ or the table names differ. Every pair that
  \<^verbatim>\<open>merge_master_adds_and_new_adds\<close> yields has equal column names and equal table names,
  and the rename of such a pair returns a result; so the pipeline as a whole never ends in
  a failed assertion.
\<close>

theorem ComputeRename_failure:
  "(master ''columnNames'' = Some mc \<longrightarrow> new ''columnNames'' = Some nc \<longrightarrow>
    master ''tableName'' = Some mt \<longrightarrow> new ''tableName'' = Some nt \<longrightarrow>
      (adds_to_add_drop_constraints master new = Inl AssertionError \<longleftrightarrow> mc \<noteq> nc \<or> mt \<noteq> nt))
   \<and> (merge_master_adds_and_new_adds master_list new_list = Inr ps \<longrightarrow> (m, n) \<in> set ps \<longrightarrow>
        m ''columnNames'' = n ''columnNames'' \<and> m ''tableName'' = n ''tableName'' \<and>
        (\<exists>r. adds_to_add_drop_constraints m n = Inr r))
   \<and> xml_diff adds drops new_constraints \<noteq> Inl AssertionError"
proof (intro conjI impI)
  assume "master ''columnNames'' = Some mc" "new ''columnNames'' = Some nc"
    "master ''tableName'' = Some mt" "new ''tableName'' = Some nt"
  then show "adds_to_add_drop_constraints master new = Inl AssertionError \<longleftrightarrow> mc \<noteq> nc \<or> mt \<noteq> nt"
    by (rule adds_to_add_drop_constraints_assertion)
next
  assume ok: "merge_master_adds_and_new_adds master_list new_list = Inr ps" and mem: "(m, n) \<in> set ps"
  from merge_pair_ok [OF ok mem]
  show "m ''columnNames'' = n ''columnNames''" and "m ''tableName'' = n ''tableName''"
    by auto
  from merge_pair_renamed [OF ok mem]
  show "\<exists>r. adds_to_add_drop_constraints m n = Inr r" .
next
  show "xml_diff adds drops new_constraints \<noteq> Inl AssertionError"
    by (rule xml_diff_no_assertion)
qed

theorem ComputeRename_failure_witness:
  "adds_to_add_drop_constraints
     [''columnNames'' \<mapsto> ''uuid'', ''constraintName'' \<mapsto> ''A'', ''tableName'' \<mapsto> ''T'']
     [''columnNames'' \<mapsto> ''uuid'', ''constraintName'' \<mapsto> ''B'', ''tableName'' \<mapsto> ''U'']
   = Inl AssertionError
   \<and> adds_to_add_drop_constraints
     [''columnNames'' \<mapsto> ''uuid'', ''constraintName'' \<mapsto> ''A'', ''tableName'' \<mapsto> ''T'']
     [''columnNames'' \<mapsto> ''uuid'', ''constraintName'' \<mapsto> ''B'', ''tableName'' \<mapsto> ''T'']
   \<noteq> Inl AssertionError
   \<and> (\<exists>r. adds_to_add_drop_constraints
     [''columnNames'' \<mapsto> ''uuid'', ''constraintName'' \<mapsto> ''A'', ''tableName'' \<mapsto> ''T'']
     [''columnNames'' \<mapsto> ''uuid'', ''constraintName'' \<mapsto> ''B'', ''tableName'' \<mapsto> ''T'']
     = Inr r)"
proof -
  let ?m = "[''columnNames'' \<mapsto> ''uuid'', ''constraintName'' \<mapsto> ''A'', ''tableName'' \<mapsto> ''T'']"
  let ?n = "[''columnNames'' \<mapsto> ''uuid'', ''constraintName'' \<mapsto> ''B'', ''tableName'' \<mapsto> ''T'']"
  let ?u = "[''columnNames'' \<mapsto> ''uuid'', ''constraintName'' \<mapsto> ''B'', ''tableName'' \<mapsto> ''U'']"
  have merged: "merge_master_adds_and_new_adds [?m] [?n] = Inr [(?m, ?n)]"
    by (simp add: merge_cond_def)
  have 1: "adds_to_add_drop_constraints ?m ?u = Inl AssertionError"
    using ComputeRename_failure [where master = ?m and new = ?u and mc = "''uuid''"
        and nc = "''uuid''" and mt = "''T''" and nt = "''U''"]
    by simp
  have 2: "adds_to_add_drop_constraints ?m ?n \<noteq> Inl AssertionError"
    using ComputeRename_failure [where master = ?m and new = ?n and mc = "''uuid''"
        and nc = "''uuid''" and mt = "''T''" and nt = "''T''"]
    by simp
  have 3: "\<exists>r. adds_to_add_drop_constraints ?m ?n = Inr r"
    using ComputeRename_failure [where master_list = "[?m]" and new_list = "[?n]"
        and ps = "[(?m, ?n)]" and m = ?m and n = ?n] merged
    by simp
  from 1 2 3 show ?thesis by (intro conjI)
qed

section \<open>FilterSuperseded\<close>

text \<open>
  Claim C7. \<^verbatim>\<open>remove_dropped_adds\<close> is idempotent for a fixed drop list: filtering its own
  result again with the same drops is the same as filtering once (and when the first call
  aborts on a malformed addition, so does the composition, with the same error).
\<close>

theorem FilterSuperseded_idempotent:
  "bind (remove_dropped_adds additions drops) (\<lambda>r. remove_dropped_adds r drops)
   = remove_dropped_adds additions drops"
proof (cases "remove_dropped_adds additions drops")
  case (Inl e)
  then show ?thesis by simp
next
  case (Inr r)
  let ?P = "\<lambda>a. \<forall>d\<in>set drops. to_drop_constraint_version a \<noteq> Inr d"
  have r: "r = filter ?P additions"
    using Inr by (rule remove_dropped_adds_filter)
  have "\<forall>a\<in>set r. \<exists>p. to_drop_constraint_version a = Inr p"
    using remove_dropped_adds_defined [OF Inr] r by auto
  then obtain r' where r': "remove_dropped_adds r drops = Inr r'"
    using remove_dropped_adds_total by blast
  then have "r' = filter ?P r"
    by (rule remove_dropped_adds_filter)
  with r have "r' = r" by simp
  with Inr r' show ?thesis by simp
qed

text \<open>The doctest of \<^verbatim>\<open>remove_dropped_adds\<close> (table and constraint names shortened).\<close>

theorem FilterSuperseded_idempotent_witness:
  "remove_dropped_adds
     [[''columnNames'' \<mapsto> ''foreignuuid'', ''constraintName'' \<mapsto> ''e_foreignuuid_key'', ''tableName'' \<mapsto> ''e''],
      [''columnNames'' \<mapsto> ''uuid'', ''constraintName'' \<mapsto> ''e_uuid_key'', ''tableName'' \<mapsto> ''e'']]
     [[''constraintName'' \<mapsto> ''e_uuid_key'', ''tableName'' \<mapsto> ''e'']]
   = Inr [[''columnNames'' \<mapsto> ''foreignuuid'', ''constraintName'' \<mapsto> ''e_foreignuuid_key'', ''tableName'' \<mapsto> ''e'']]
   \<and> remove_dropped_adds
     [[''columnNames'' \<mapsto> ''foreignuuid'', ''constraintName'' \<mapsto> ''e_foreignuuid_key'', ''tableName'' \<mapsto> ''e'']]
     [[''constraintName'' \<mapsto> ''e_uuid_key'', ''tableName'' \<mapsto> ''e'']]
   = Inr [[''columnNames'' \<mapsto> ''foreignuuid'', ''constraintName'' \<mapsto> ''e_foreignuuid_key'', ''tableName'' \<mapsto> ''e'']]"
proof -
  let ?a1 = "[''columnNames'' \<mapsto> ''foreignuuid'', ''constraintName'' \<mapsto> ''e_foreignuuid_key'', ''tableName'' \<mapsto> ''e'']"
  let ?a2 = "[''columnNames'' \<mapsto> ''uuid'', ''constraintName'' \<mapsto> ''e_uuid_key'', ''tableName'' \<mapsto> ''e'']"
  let ?d = "[''constraintName'' \<mapsto> ''e_uuid_key'', ''tableName'' \<mapsto> ''e'']"
  have once: "remove_dropped_adds [?a1, ?a2] [?d] = Inr [?a1]"
    by (simp add: to_drop_constraint_version_def key_record_eq_iff)
  from FilterSuperseded_idempotent [of "[?a1, ?a2]" "[?d]"] once
  have "remove_dropped_adds [?a1] [?d] = Inr [?a1]"
    by simp
  with once show ?thesis by simp
qed

text \<open>
  Claim C10. The result of \<^verbatim>\<open>remove_dropped_adds\<close> is a subsequence of the additions:
  the retained records are input records, unchanged and in their input order (the result
  is the input list filtered by membership in the result). The function reads the drop
  list only through \<^verbatim>\<open>not in\<close>; the model takes it as a value and returns no new one.
\<close>

theorem FilterSuperseded_subsequence:
  assumes "remove_dropped_adds additions drops = Inr r"
  shows "subseq r additions \<and> set r \<subseteq> set additions \<and> r = filter (\<lambda>a. a \<in> set r) additions"
proof -
  let ?P = "\<lambda>a. \<forall>d\<in>set drops. to_drop_constraint_version a \<noteq> Inr d"
  have r: "r = filter ?P additions"
    using assms by (rule remove_dropped_adds_filter)
  have "filter (\<lambda>a. a \<in> set (filter ?P additions)) additions = filter ?P additions"
    by (rule filter_cong) auto
  with r show ?thesis by (auto simp del: filter_filter)
qed

theorem FilterSuperseded_subsequence_witness:
  "subseq
     [[''columnNames'' \<mapsto> ''a'', ''constraintName'' \<mapsto> ''X'', ''tableName'' \<mapsto> ''T''],
      [''columnNames'' \<mapsto> ''c'', ''constraintName'' \<mapsto> ''Z'', ''tableName'' \<mapsto> ''T'']]
     [[''columnNames'' \<mapsto> ''a'', ''constraintName'' \<mapsto> ''X'', ''tableName'' \<mapsto> ''T''],
      [''columnNames'' \<mapsto> ''b'', ''constraintName'' \<mapsto> ''Y'', ''tableName'' \<mapsto> ''T''],
      [''columnNames'' \<mapsto> ''c'', ''constraintName'' \<mapsto> ''Z'', ''tableName'' \<mapsto> ''T'']]
   \<and> remove_dropped_adds
     [[''columnNames'' \<mapsto> ''a'', ''constraintName'' \<mapsto> ''X'', ''tableName'' \<mapsto> ''T''],
      [''columnNames'' \<mapsto> ''b'', ''constraintName'' \<mapsto> ''Y'', ''tableName'' \<mapsto> ''T''],
      [''columnNames'' \<mapsto> ''c'', ''constraintName'' \<mapsto> ''Z'', ''tableName'' \<mapsto> ''T'']]
     [[''constraintName'' \<mapsto> ''Y'', ''tableName'' \<mapsto> ''T'']]
   = Inr [[''columnNames'' \<mapsto> ''a'', ''constraintName'' \<mapsto> ''X'', ''tableName'' \<mapsto> ''T''],
          [''columnNames'' \<mapsto> ''c'', ''constraintName'' \<mapsto> ''Z'', ''tableName'' \<mapsto> ''T'']]"
proof -
  let ?x = "[''columnNames'' \<mapsto> ''a'', ''constraintName'' \<mapsto> ''X'', ''tableName'' \<mapsto> ''T'']"
  let ?y = "[''columnNames'' \<mapsto> ''b'', ''constraintName'' \<mapsto> ''Y'', ''tableName'' \<mapsto> ''T'']"
  let ?z = "[''columnNames'' \<mapsto> ''c'', ''constraintName'' \<mapsto> ''Z'', ''tableName'' \<mapsto> ''T'']"
  let ?d = "[''constraintName'' \<mapsto> ''Y'', ''tableName'' \<mapsto> ''T'']"
  have run: "remove_dropped_adds [?x, ?y, ?z] [?d] = Inr [?x, ?z]"
    by (simp add: to_drop_constraint_version_def key_record_eq_iff)
  from FilterSuperseded_subsequence [OF run] have "subseq [?x, ?z] [?x, ?y, ?z]"
    by (rule conjunct1)
  from this run show ?thesis by (rule conjI)
qed

text \<open>
  Claim C9. An addition is removed by \<^verbatim>\<open>remove_dropped_adds\<close> if and only if some record
  of the drop list is equal, as a whole record, to the two-attribute record made of the
  addition's \<^verbatim>\<open>constraintName\<close> and \<^verbatim>\<open>tableName\<close>. Hence a drop that carries any other
  attribute removes nothing: the result is the same with all such drops deleted from the
  drop list.
\<close>

theorem FilterSuperseded_whole_record:
  "(remove_dropped_adds additions drops = Inr r \<longrightarrow>
      (\<forall>a\<in>set additions. \<exists>c t. a ''constraintName'' = Some c \<and> a ''tableName'' = Some t \<and>
          (a \<notin> set r \<longleftrightarrow> [''constraintName'' \<mapsto> c, ''tableName'' \<mapsto> t] \<in> set drops)))
   \<and> remove_dropped_adds additions drops =
       remove_dropped_adds additions
         (filter (\<lambda>d. dom d \<subseteq> {''constraintName'', ''tableName''}) drops)"
proof (intro conjI impI ballI)
  fix a
  assume ok: "remove_dropped_adds additions drops = Inr r" and a: "a \<in> set additions"
  from remove_dropped_adds_defined [OF ok] a
  obtain c t where ct: "a ''constraintName'' = Some c" "a ''tableName'' = Some t"
    by (auto simp: to_drop_constraint_version_eq_Inr)
  then have p: "to_drop_constraint_version a = Inr [''constraintName'' \<mapsto> c, ''tableName'' \<mapsto> t]"
    by (rule to_drop_constraint_version_Some)
  have "a \<notin> set r \<longleftrightarrow> [''constraintName'' \<mapsto> c, ''tableName'' \<mapsto> t] \<in> set drops"
    using remove_dropped_adds_filter [OF ok] a p by auto
  with ct show "\<exists>c t. a ''constraintName'' = Some c \<and> a ''tableName'' = Some t \<and>
          (a \<notin> set r \<longleftrightarrow> [''constraintName'' \<mapsto> c, ''tableName'' \<mapsto> t] \<in> set drops)"
    by blast
next
  show "remove_dropped_adds additions drops =
       remove_dropped_adds additions
         (filter (\<lambda>d. dom d \<subseteq> {''constraintName'', ''tableName''}) drops)"
  proof (induction additions)
    case Nil
    then show ?case by simp
  next
    case (Cons a additions)
    have "\<And>p. to_drop_constraint_version a = Inr p \<Longrightarrow>
      p \<in> set drops \<longleftrightarrow> p \<in> set (filter (\<lambda>d. dom d \<subseteq> {''constraintName'', ''tableName''}) drops)"
      using to_drop_constraint_version_dom by auto
    then show ?case
      using Cons by (cases "to_drop_constraint_version a") auto
  qed
qed

text \<open>
  Of two drops whose keys match the two additions, the one with the extra attribute
  \<^verbatim>\<open>schemaName\<close> removes nothing.
\<close>

theorem FilterSuperseded_whole_record_witness:
  "remove_dropped_adds
     [[''columnNames'' \<mapsto> ''a'', ''constraintName'' \<mapsto> ''X'', ''tableName'' \<mapsto> ''T''],
      [''columnNames'' \<mapsto> ''b'', ''constraintName'' \<mapsto> ''Y'', ''tableName'' \<mapsto> ''T'']]
     [[''constraintName'' \<mapsto> ''X'', ''schemaName'' \<mapsto> ''public'', ''tableName'' \<mapsto> ''T''],
      [''constraintName'' \<mapsto> ''Y'', ''tableName'' \<mapsto> ''T'']]
   = Inr [[''columnNames'' \<mapsto> ''a'', ''constraintName'' \<mapsto> ''X'', ''tableName'' \<mapsto> ''T'']]
   \<and> [''constraintName'' \<mapsto> ''X'', ''tableName'' \<mapsto> ''T'']
     \<notin> set [[''constraintName'' \<mapsto> ''X'', ''schemaName'' \<mapsto> ''public'', ''tableName'' \<mapsto> ''T''],
              [''constraintName'' \<mapsto> ''Y'', ''tableName'' \<mapsto> ''T'']]"
proof -
  let ?x = "[''columnNames'' \<mapsto> ''a'', ''constraintName'' \<mapsto> ''X'', ''tableName'' \<mapsto> ''T'']"
  let ?y = "[''columnNames'' \<mapsto> ''b'', ''constraintName'' \<mapsto> ''Y'', ''tableName'' \<mapsto> ''T'']"
  let ?dx = "[''constraintName'' \<mapsto> ''X'', ''schemaName'' \<mapsto> ''public'', ''tableName'' \<mapsto> ''T'']"
  let ?dy = "[''constraintName'' \<mapsto> ''Y'', ''tableName'' \<mapsto> ''T'']"
  note whole = FilterSuperseded_whole_record [of "[?x, ?y]" "[?dx, ?dy]" "[?x]"]
  have "remove_dropped_adds [?x, ?y] [?dx, ?dy]
      = remove_dropped_adds [?x, ?y]
          (filter (\<lambda>d. dom d \<subseteq> {''constraintName'', ''tableName''}) [?dx, ?dy])"
    using whole by (rule conjunct2)
  also have "filter (\<lambda>d. dom d \<subseteq> {''constraintName'', ''tableName''}) [?dx, ?dy] = [?dy]"
    by simp
  also have "remove_dropped_adds [?x, ?y] [?dy] = Inr [?x]"
    by (simp add: to_drop_constraint_version_def key_record_eq_iff)
  finally have run: "remove_dropped_adds [?x, ?y] [?dx, ?dy] = Inr [?x]" .
  from whole [THEN conjunct1, THEN mp, OF run]
  have "\<exists>c t. ?x ''constraintName'' = Some c \<and> ?x ''tableName'' = Some t \<and>
      (?x \<notin> set [?x] \<longleftrightarrow> [''constraintName'' \<mapsto> c, ''tableName'' \<mapsto> t] \<in> set [?dx, ?dy])"
    by (rule bspec) (rule list.set_intros(1))
  then have "[''constraintName'' \<mapsto> ''X'', ''tableName'' \<mapsto> ''T''] \<notin> set [?dx, ?dy]"
    by simp
  with run show ?thesis by (rule conjI)
qed

text \<open>
  Claim C3. For every list of additions (each carrying \<^verbatim>\<open>constraintName\<close> and
  \<^verbatim>\<open>tableName\<close>) and every list of drops (constraint-drop records: exactly the attributes
  \<^verbatim>\<open>constraintName\<close> and \<^verbatim>\<open>tableName\<close>), \<^verbatim>\<open>remove_dropped_adds\<close> returns the additions
  with exactly those removed whose table name and constraint name are those of some drop
  of the list; every addition that no drop matches is retained. In particular an addition
  whose name and table equal a drop's is excluded, and with an empty drop list every
  addition is retained.
\<close>

theorem FilterSuperseded_by_key:
  assumes "\<forall>a\<in>set additions. {''constraintName'', ''tableName''} \<subseteq> dom a"
    and "\<forall>d\<in>set drops. dom d = {''constraintName'', ''tableName''}"
  shows "remove_dropped_adds additions drops =
    Inr (filter (\<lambda>a. \<not> (\<exists>d\<in>set drops. d ''tableName'' = a ''tableName'' \<and>
                                  d ''constraintName'' = a ''constraintName'')) additions)"
proof -
  have "\<forall>a\<in>set additions. \<exists>p. to_drop_constraint_version a = Inr p"
  proof
    fix a assume "a \<in> set additions"
    with assms(1) obtain c t where "a ''constraintName'' = Some c" "a ''tableName'' = Some t"
      by auto
    then show "\<exists>p. to_drop_constraint_version a = Inr p"
      by (auto simp: to_drop_constraint_version_eq_Inr)
  qed
  then obtain r where r: "remove_dropped_adds additions drops = Inr r"
    using remove_dropped_adds_total by blast
  have "filter (\<lambda>a. \<forall>d\<in>set drops. to_drop_constraint_version a \<noteq> Inr d) additions
      = filter (\<lambda>a. \<not> (\<exists>d\<in>set drops. d ''tableName'' = a ''tableName'' \<and>
                                  d ''constraintName'' = a ''constraintName'')) additions"
  proof (rule filter_cong [OF refl])
    fix a assume "a \<in> set additions"
    with assms(1) obtain c t where ct: "a ''constraintName'' = Some c" "a ''tableName'' = Some t"
      by auto
    then have p: "to_drop_constraint_version a = Inr [''constraintName'' \<mapsto> c, ''tableName'' \<mapsto> t]"
      by (rule to_drop_constraint_version_Some)
    have "d = [''constraintName'' \<mapsto> c, ''tableName'' \<mapsto> t] \<longleftrightarrow>
        d ''tableName'' = a ''tableName'' \<and> d ''constraintName'' = a ''constraintName''"
      if "d \<in> set drops" for d
    proof
      assume "d = [''constraintName'' \<mapsto> c, ''tableName'' \<mapsto> t]"
      with ct show "d ''tableName'' = a ''tableName'' \<and> d ''constraintName'' = a ''constraintName''"
        by simp
    next
      assume "d ''tableName'' = a ''tableName'' \<and> d ''constraintName'' = a ''constraintName''"
      with ct have "d ''constraintName'' = Some c" and "d ''tableName'' = Some t" by simp_all
      with assms(2) that show "d = [''constraintName'' \<mapsto> c, ''tableName'' \<mapsto> t]"
        by (intro key_record_eqI) simp_all
    qed
    with p show "(\<forall>d\<in>set drops. to_drop_constraint_version a \<noteq> Inr d) =
        (\<not> (\<exists>d\<in>set drops. d ''tableName'' = a ''tableName'' \<and>
                                  d ''constraintName'' = a ''constraintName''))"
      by auto
  qed
  with remove_dropped_adds_filter [OF r] r show ?thesis by simp
qed

theorem FilterSuperseded_by_key_witness:
  "remove_dropped_adds
     [[''constraintName'' \<mapsto> ''X'', ''tableName'' \<mapsto> ''T'']]
     [[''constraintName'' \<mapsto> ''X'', ''tableName'' \<mapsto> ''T'']] = Inr []
   \<and> remove_dropped_adds
     [[''constraintName'' \<mapsto> ''X'', ''tableName'' \<mapsto> ''T'']] []
     = Inr [[''constraintName'' \<mapsto> ''X'', ''tableName'' \<mapsto> ''T'']]"
proof -
  let ?x = "[''constraintName'' \<mapsto> ''X'', ''tableName'' \<mapsto> ''T'']"
  have dom: "dom ?x = {''constraintName'', ''tableName''}"
    by auto
  have adds: "\<forall>a\<in>set [?x]. {''constraintName'', ''tableName''} \<subseteq> dom a"
    by simp
  have drops: "\<forall>d\<in>set [?x]. dom d = {''constraintName'', ''tableName''}"
    using dom by simp
  have none: "\<forall>d\<in>set ([] :: attrs list). dom d = {''constraintName'', ''tableName''}"
    by simp
  from FilterSuperseded_by_key [OF adds drops] have "remove_dropped_adds [?x] [?x] = Inr []"
    by simp
  moreover from FilterSuperseded_by_key [OF adds none] have "remove_dropped_adds [?x] [] = Inr [?x]"
    by simp
  ultimately show ?thesis by (rule conjI)
qed

section \<open>MatchByTableAndColumns\<close>

text \<open>
  Claim C2. When \<^verbatim>\<open>merge_master_adds_and_new_adds\<close> returns, its result is the cross
  product of the two lists, in order and with repetitions, restricted to the pairs with
  equal \<^verbatim>\<open>tableName\<close>, equal \<^verbatim>\<open>columnNames\<close> (equality of strings) and different
  \<^verbatim>\<open>constraintName\<close>; so a pair is yielded if and only if it satisfies these conditions.
  It returns whenever all records carry the three attributes. One master and one new
  addition on the same table and columns with different names yield exactly one pair.
\<close>

theorem MatchByTableAndColumns_cross_product:
  "(merge_master_adds_and_new_adds master_list new_list = Inr ps \<longrightarrow>
      ps = [(master, new). master \<leftarrow> master_list, new \<leftarrow> new_list,
            master ''tableName'' = new ''tableName'' \<and>
            master ''columnNames'' = new ''columnNames'' \<and>
            master ''constraintName'' \<noteq> new ''constraintName'']
      \<and> ((m, n) \<in> set ps \<longleftrightarrow>
            m \<in> set master_list \<and> n \<in> set new_list \<and>
            m ''tableName'' = n ''tableName'' \<and> m ''columnNames'' = n ''columnNames'' \<and>
            m ''constraintName'' \<noteq> n ''constraintName''))
   \<and> ((\<forall>r\<in>set master_list \<union> set new_list.
          {''tableName'', ''columnNames'', ''constraintName''} \<subseteq> dom r)
        \<longrightarrow> (\<exists>ps. merge_master_adds_and_new_adds master_list new_list = Inr ps))
   \<and> (m ''tableName'' = Some t \<and> n ''tableName'' = Some t \<and>
        m ''columnNames'' = Some c \<and> n ''columnNames'' = Some c \<and>
        m ''constraintName'' = Some a \<and> n ''constraintName'' = Some b \<and> a \<noteq> b
        \<longrightarrow> merge_master_adds_and_new_adds [m] [n] = Inr [(m, n)])"
proof (intro conjI impI)
  assume ok: "merge_master_adds_and_new_adds master_list new_list = Inr ps"
  show "ps = [(master, new). master \<leftarrow> master_list, new \<leftarrow> new_list,
            master ''tableName'' = new ''tableName'' \<and>
            master ''columnNames'' = new ''columnNames'' \<and>
            master ''constraintName'' \<noteq> new ''constraintName'']"
    using ok by (rule merge_comprehension)
  show "(m, n) \<in> set ps \<longleftrightarrow>
            m \<in> set master_list \<and> n \<in> set new_list \<and>
            m ''tableName'' = n ''tableName'' \<and> m ''columnNames'' = n ''columnNames'' \<and>
            m ''constraintName'' \<noteq> n ''constraintName''"
    by (subst merge_comprehension [OF ok]) (rule in_set_pairs_iff)
next
  assume "\<forall>r\<in>set master_list \<union> set new_list.
          {''tableName'', ''columnNames'', ''constraintName''} \<subseteq> dom r"
  then show "\<exists>ps. merge_master_adds_and_new_adds master_list new_list = Inr ps"
    by (rule merge_total_wf)
next
  assume h: "m ''tableName'' = Some t \<and> n ''tableName'' = Some t \<and>
        m ''columnNames'' = Some c \<and> n ''columnNames'' = Some c \<and>
        m ''constraintName'' = Some a \<and> n ''constraintName'' = Some b \<and> a \<noteq> b"
  then have "merge_cond m n = Inr (t = t \<and> c = c \<and> a \<noteq> b)"
    by (intro merge_cond_Some) simp_all
  with h have "merge_cond m n = Inr True" by simp
  then show "merge_master_adds_and_new_adds [m] [n] = Inr [(m, n)]"
    by simp
qed

text \<open>
  Of three new additions, the one whose column names differ by a blank and the one with the
  master's own constraint name are not matched.
\<close>

theorem MatchByTableAndColumns_cross_product_witness:
  "merge_master_adds_and_new_adds
     [[''columnNames'' \<mapsto> ''uuid, vlan'', ''constraintName'' \<mapsto> ''A'', ''tableName'' \<mapsto> ''T'']]
     [[''columnNames'' \<mapsto> ''uuid, vlan'', ''constraintName'' \<mapsto> ''B'', ''tableName'' \<mapsto> ''T''],
      [''columnNames'' \<mapsto> ''uuid,vlan'', ''constraintName'' \<mapsto> ''C'', ''tableName'' \<mapsto> ''T''],
      [''columnNames'' \<mapsto> ''uuid, vlan'', ''constraintName'' \<mapsto> ''A'', ''tableName'' \<mapsto> ''T'']]
   = Inr [([''columnNames'' \<mapsto> ''uuid, vlan'', ''constraintName'' \<mapsto> ''A'', ''tableName'' \<mapsto> ''T''],
           [''columnNames'' \<mapsto> ''uuid, vlan'', ''constraintName'' \<mapsto> ''B'', ''tableName'' \<mapsto> ''T''])]"
proof -
  let ?m = "[''columnNames'' \<mapsto> ''uuid, vlan'', ''constraintName'' \<mapsto> ''A'', ''tableName'' \<mapsto> ''T'']"
  let ?n1 = "[''columnNames'' \<mapsto> ''uuid, vlan'', ''constraintName'' \<mapsto> ''B'', ''tableName'' \<mapsto> ''T'']"
  let ?n2 = "[''columnNames'' \<mapsto> ''uuid,vlan'', ''constraintName'' \<mapsto> ''C'', ''tableName'' \<mapsto> ''T'']"
  have wf: "\<forall>r\<in>set [?m] \<union> set [?n1, ?n2, ?m].
      {''tableName'', ''columnNames'', ''constraintName''} \<subseteq> dom r"
    by simp
  note inst = MatchByTableAndColumns_cross_product [where master_list = "[?m]"
      and new_list = "[?n1, ?n2, ?m]"]
  have "\<exists>ps. merge_master_adds_and_new_adds [?m] [?n1, ?n2, ?m] = Inr ps"
    by (rule inst [THEN conjunct2, THEN conjunct1, THEN mp, OF wf])
  then obtain ps where ps: "merge_master_adds_and_new_adds [?m] [?n1, ?n2, ?m] = Inr ps" ..
  have "ps = [(master, new). master \<leftarrow> [?m], new \<leftarrow> [?n1, ?n2, ?m],
            master ''tableName'' = new ''tableName'' \<and>
            master ''columnNames'' = new ''columnNames'' \<and>
            master ''constraintName'' \<noteq> new ''constraintName'']"
    by (rule inst [where ps = ps, THEN conjunct1, THEN mp, THEN conjunct1, OF ps])
  then have "ps = [(?m, ?n1)]" by simp
  with ps show ?thesis by simp
qed

section \<open>The passthrough attributes\<close>

text \<open>
  Claim C8, as stated, fails: the master addition below is parsed with its three flags
  \<^verbatim>\<open>"true"\<close>, and the add record that emerges from the pipeline has them \<^verbatim>\<open>"false"\<close>.
\<close>

theorem passthrough_flags_counterexample:
  "xml_diff
     [[''columnNames'' \<mapsto> ''uuid'', ''constraintName'' \<mapsto> ''A'', ''deferrable'' \<mapsto> ''true'',
       ''disabled'' \<mapsto> ''true'', ''initiallyDeferred'' \<mapsto> ''true'', ''tableName'' \<mapsto> ''T'']]
     []
     [[''columnNames'' \<mapsto> ''uuid'', ''constraintName'' \<mapsto> ''B'', ''tableName'' \<mapsto> ''T'']]
   = Inr [([''constraintName'' \<mapsto> ''A'', ''tableName'' \<mapsto> ''T''],
           [''columnNames'' \<mapsto> ''uuid'', ''constraintName'' \<mapsto> ''B'',
            ''deferrable'' \<mapsto> ''false'', ''disabled'' \<mapsto> ''false'',
            ''initiallyDeferred'' \<mapsto> ''false'', ''tableName'' \<mapsto> ''T''])]
   \<and> [''columnNames'' \<mapsto> ''uuid'', ''constraintName'' \<mapsto> ''A'', ''deferrable'' \<mapsto> ''true'',
       ''disabled'' \<mapsto> ''true'', ''initiallyDeferred'' \<mapsto> ''true'', ''tableName'' \<mapsto> ''T'']
       ''deferrable'' = Some ''true''
   \<and> [''columnNames'' \<mapsto> ''uuid'', ''constraintName'' \<mapsto> ''B'',
            ''deferrable'' \<mapsto> ''false'', ''disabled'' \<mapsto> ''false'',
            ''initiallyDeferred'' \<mapsto> ''false'', ''tableName'' \<mapsto> ''T'']
       ''deferrable'' = Some ''false''"
  using xml_diff_example by simp

text \<open>
  Claim C8, amended. Every pair that emerges from the diff pipeline is the rename of a
  parsed master addition and a parsed new addition; its add record has \<^verbatim>\<open>deferrable\<close>,
  \<^verbatim>\<open>disabled\<close> and \<^verbatim>\<open>initiallyDeferred\<close> set to \<^verbatim>\<open>"false"\<close>, whatever the parsed
  records carry, and its drop record has none of the three.
\<close>

theorem pipeline_flags_reset:
  assumes "xml_diff adds drops new_constraints = Inr diff" and "(d, a) \<in> set diff"
  shows "a ''deferrable'' = Some ''false'' \<and> a ''disabled'' = Some ''false''
    \<and> a ''initiallyDeferred'' = Some ''false''
    \<and> d ''deferrable'' = None \<and> d ''disabled'' = None \<and> d ''initiallyDeferred'' = None
    \<and> (\<exists>master new. master \<in> set adds \<and> new \<in> set new_constraints
          \<and> adds_to_add_drop_constraints master new = Inr (d, a))"
proof -
  from xml_diff_members [OF assms] obtain master new where mn: "master \<in> set adds"
    "new \<in> set new_constraints" and run: "adds_to_add_drop_constraints master new = Inr (d, a)"
    by blast
  from run have "a ''deferrable'' = Some ''false'' \<and> a ''disabled'' = Some ''false''
    \<and> a ''initiallyDeferred'' = Some ''false''
    \<and> d ''deferrable'' = None \<and> d ''disabled'' = None \<and> d ''initiallyDeferred'' = None"
    unfolding adds_to_add_drop_constraints_eq_Inr by auto
  with mn run show ?thesis by blast
qed

theorem pipeline_flags_reset_witness:
  "[''columnNames'' \<mapsto> ''uuid'', ''constraintName'' \<mapsto> ''B'',
            ''deferrable'' \<mapsto> ''false'', ''disabled'' \<mapsto> ''false'',
            ''initiallyDeferred'' \<mapsto> ''false'', ''tableName'' \<mapsto> ''T'']
       ''disabled'' = Some ''false''
   \<and> [''constraintName'' \<mapsto> ''A'', ''tableName'' \<mapsto> ''T''] ''disabled'' = None"
proof -
  let ?d = "[''constraintName'' \<mapsto> ''A'', ''tableName'' \<mapsto> ''T'']"
  let ?a = "[''columnNames'' \<mapsto> ''uuid'', ''constraintName'' \<mapsto> ''B'',
            ''deferrable'' \<mapsto> ''false'', ''disabled'' \<mapsto> ''false'',
            ''initiallyDeferred'' \<mapsto> ''false'', ''tableName'' \<mapsto> ''T'']"
  have "(?d, ?a) \<in> set [(?d, ?a)]" by simp
  from pipeline_flags_reset [OF xml_diff_example this] show ?thesis by blast
qed

section \<open>BuildChangelog\<close>

text \<open>
  Claim C6. For every list of pairs, every list of property records, every change id (and
  every user name and initial store), the document built by
  \<^verbatim>\<open>add_and_removes_to_changelog_xml\<close> is a \<^verbatim>\<open>databaseChangeLog\<close> whose children are one
  \<^verbatim>\<open>property\<close> element per property record, with the record's attributes, in input order,
  followed by exactly one \<^verbatim>\<open>changeSet\<close> with the given change id; the children of the
  change-set are the provenance comment, then for each pair in order its
  \<^verbatim>\<open>dropUniqueConstraint\<close> immediately followed by its \<^verbatim>\<open>addUniqueConstraint\<close>, then exactly
  one \<^verbatim>\<open>modifySql\<close> for \<^verbatim>\<open>postgresql\<close> with the single child \<^verbatim>\<open>replace\<close> of \<^verbatim>\<open>WITH\<close> by
  \<^verbatim>\<open>WITHOUT\<close>. The root is a new element and the elements already in the store are
  untouched. Fuel 4, the depth of the document, or more reads it whole.
\<close>

theorem BuildChangelog_document:
  "tree_of (4 + k)
     (snd (add_and_removes_to_changelog_xml user add_and_removes properties change_id h0))
     (fst (add_and_removes_to_changelog_xml user add_and_removes properties change_id h0))
   = Some (Xml ''databaseChangeLog'' ns None
       (map (\<lambda>p. Xml ''property'' p None []) properties @
        [Xml ''changeSet'' [''author'' \<mapsto> user, ''id'' \<mapsto> change_id] None
          (Xml ''comment'' Map.empty (Some comment_text) [] #
           concat (map (\<lambda>(d, a). [Xml ''dropUniqueConstraint'' d None [],
                                  Xml ''addUniqueConstraint'' a None []]) add_and_removes) @
           [Xml ''modifySql'' [''dbms'' \<mapsto> ''postgresql''] None
             [Xml ''replace'' [''replace'' \<mapsto> ''WITH'', ''with'' \<mapsto> ''WITHOUT''] None []]])]))
   \<and> fst (add_and_removes_to_changelog_xml user add_and_removes properties change_id h0) = length h0
   \<and> take (length h0)
        (snd (add_and_removes_to_changelog_xml user add_and_removes properties change_id h0)) = h0"
proof -
  let ?n = "length h0" and ?P = "length properties" and ?Q = "length add_and_removes"
  let ?T = "\<lparr>el_tag = ''databaseChangeLog'', el_attrib = ns, el_text = None,
            el_children = [?n + 1 ..< ?n + 1 + ?P] @ [?n + 1 + ?P]\<rparr>"
  let ?PL = "map (leaf ''property'') properties"
  let ?CS = "\<lparr>el_tag = ''changeSet'', el_attrib = [''author'' \<mapsto> user, ''id'' \<mapsto> change_id],
            el_text = None,
            el_children = (?n + 2 + ?P) # [?n + 3 + ?P ..< ?n + 3 + ?P + 2 * ?Q]
              @ [?n + 3 + ?P + 2 * ?Q]\<rparr>"
  let ?CM = "\<lparr>el_tag = ''comment'', el_attrib = Map.empty, el_text = Some comment_text,
            el_children = []\<rparr>"
  let ?CL = "?CM # constraint_nodes add_and_removes"
  let ?MS = "\<lparr>el_tag = ''modifySql'', el_attrib = [''dbms'' \<mapsto> ''postgresql''], el_text = None,
             el_children = [?n + 4 + ?P + 2 * ?Q]\<rparr>"
  let ?R = "leaf ''replace'' [''replace'' \<mapsto> ''WITH'', ''with'' \<mapsto> ''WITHOUT'']"
  have run: "add_and_removes_to_changelog_xml user add_and_removes properties change_id h0
      = (?n, h0 @ ?T # ?PL @ ?CS # ?CL @ [?MS, ?R])"
    by (simp add: changelog_heap)
  have PL: "\<forall>l\<in>set ?PL. el_children l = []"
    by simp
  have CL: "\<forall>l\<in>set ?CL. el_children l = []"
    by auto
  have lenCL: "length ?CL = 1 + 2 * ?Q"
    by (simp add: length_constraint_nodes)
  have T: "el_children ?T = [?n + 1 ..< ?n + 1 + length ?PL] @ [?n + 1 + length ?PL]"
    by simp
  have CS: "el_children ?CS = [?n + 1 + length ?PL + 1 ..< ?n + 1 + length ?PL + 1 + length ?CL]
                @ [?n + 1 + length ?PL + 1 + length ?CL]"
    unfolding lenCL by (simp add: upt_conv_Cons eval_nat_numeral del: upt_Suc)
  have MS: "el_children ?MS = [?n + 1 + length ?PL + 1 + length ?CL + 1]"
    unfolding lenCL by (simp add: eval_nat_numeral)
  have R: "el_children ?R = []"
    by simp
  have flatPL: "map flat ?PL = map (\<lambda>p. Xml ''property'' p None []) properties"
    by simp
  have flatCL: "map flat ?CL = Xml ''comment'' Map.empty (Some comment_text) [] #
           concat (map (\<lambda>(d, a). [Xml ''dropUniqueConstraint'' d None [],
                                  Xml ''addUniqueConstraint'' a None []]) add_and_removes)"
    by (induction add_and_removes) auto
  have four: "4 + k = Suc (Suc (Suc (Suc k)))"
    by simp
  have "tree_of (4 + k) (h0 @ ?T # ?PL @ ?CS # ?CL @ [?MS, ?R]) ?n
      = Some (Xml (el_tag ?T) (el_attrib ?T) (el_text ?T)
        (map flat ?PL @
         [Xml (el_tag ?CS) (el_attrib ?CS) (el_text ?CS)
           (map flat ?CL @ [Xml (el_tag ?MS) (el_attrib ?MS) (el_text ?MS) [flat ?R]])]))"
    unfolding four by (rule tree_of_changelog_shape [OF PL CL R T CS MS])
  then have "tree_of (4 + k) (h0 @ ?T # ?PL @ ?CS # ?CL @ [?MS, ?R]) ?n
      = Some (Xml ''databaseChangeLog'' ns None
       (map (\<lambda>p. Xml ''property'' p None []) properties @
        [Xml ''changeSet'' [''author'' \<mapsto> user, ''id'' \<mapsto> change_id] None
          (Xml ''comment'' Map.empty (Some comment_text) [] #
           concat (map (\<lambda>(d, a). [Xml ''dropUniqueConstraint'' d None [],
                                  Xml ''addUniqueConstraint'' a None []]) add_and_removes) @
           [Xml ''modifySql'' [''dbms'' \<mapsto> ''postgresql''] None
             [Xml ''replace'' [''replace'' \<mapsto> ''WITH'', ''with'' \<mapsto> ''WITHOUT''] None []]])]))"
    unfolding flatPL flatCL by simp
  then show ?thesis
    unfolding run by simp
qed

text \<open>One property record and one rename pair, built in the empty store.\<close>

theorem BuildChangelog_document_witness:
  "tree_of 4
     (snd (add_and_removes_to_changelog_xml ''jl''
        [([''constraintName'' \<mapsto> ''A'', ''tableName'' \<mapsto> ''T''],
          [''columnNames'' \<mapsto> ''uuid'', ''constraintName'' \<mapsto> ''B'',
           ''deferrable'' \<mapsto> ''false'', ''disabled'' \<mapsto> ''false'',
           ''initiallyDeferred'' \<mapsto> ''false'', ''tableName'' \<mapsto> ''T''])]
        [[''name'' \<mapsto> ''now'', ''value'' \<mapsto> ''now()'']] ''42'' []))
     (fst (add_and_removes_to_changelog_xml ''jl''
        [([''constraintName'' \<mapsto> ''A'', ''tableName'' \<mapsto> ''T''],
          [''columnNames'' \<mapsto> ''uuid'', ''constraintName'' \<mapsto> ''B'',
           ''deferrable'' \<mapsto> ''false'', ''disabled'' \<mapsto> ''false'',
           ''initiallyDeferred'' \<mapsto> ''false'', ''tableName'' \<mapsto> ''T''])]
        [[''name'' \<mapsto> ''now'', ''value'' \<mapsto> ''now()'']] ''42'' []))
   = Some (Xml ''databaseChangeLog'' ns None
       [Xml ''property'' [''name'' \<mapsto> ''now'', ''value'' \<mapsto> ''now()''] None [],
        Xml ''changeSet'' [''author'' \<mapsto> ''jl'', ''id'' \<mapsto> ''42''] None
          [Xml ''comment'' Map.empty (Some comment_text) [],
           Xml ''dropUniqueConstraint'' [''constraintName'' \<mapsto> ''A'', ''tableName'' \<mapsto> ''T''] None [],
           Xml ''addUniqueConstraint''
             [''columnNames'' \<mapsto> ''uuid'', ''constraintName'' \<mapsto> ''B'',
              ''deferrable'' \<mapsto> ''false'', ''disabled'' \<mapsto> ''false'',
              ''initiallyDeferred'' \<mapsto> ''false'', ''tableName'' \<mapsto> ''T''] None [],
           Xml ''modifySql'' [''dbms'' \<mapsto> ''postgresql''] None
             [Xml ''replace'' [''replace'' \<mapsto> ''WITH'', ''with'' \<mapsto> ''WITHOUT''] None []]]])"
  using BuildChangelog_document [THEN conjunct1, of 0 "''jl''"
      "[([''constraintName'' \<mapsto> ''A'', ''tableName'' \<mapsto> ''T''],
          [''columnNames'' \<mapsto> ''uuid'', ''constraintName'' \<mapsto> ''B'',
           ''deferrable'' \<mapsto> ''false'', ''disabled'' \<mapsto> ''false'',
           ''initiallyDeferred'' \<mapsto> ''false'', ''tableName'' \<mapsto> ''T''])]"
      "[[''name'' \<mapsto> ''now'', ''value'' \<mapsto> ''now()'']]" "''42''" "[]"]
  by simp

end
